theory Spec2Isabelle
  imports Complex_Main "HOL-Library.Monad_Syntax"
begin

section \<open>JavaScript numbers\<close>

text \<open>
  A JavaScript number is either finite, or one of the three special values
  \<open>NaN\<close>, \<open>Infinity\<close> and \<open>-Infinity\<close>. Finite values are carried exactly
  (a real, or an integer for the result of \<open>Math.floor\<close>): rounding, overflow and
  the sign of zero are not part of this model. The special values follow the
  rules of the language: every comparison with \<open>NaN\<close> is false, an infinity
  absorbs a finite summand, and \<open>Infinity - Infinity\<close> is \<open>NaN\<close>.

  The numbers of the program are doubles. On integers of magnitude up to
  \<open>2^53\<close> their sums and differences are exact, and so is a quotient by 32
  that does not underflow; there the exact values are the values of the
  program. Beyond that they are not: \<open>2^53 + 1\<close> is \<open>2^53\<close> again, a negative
  number of magnitude at most \<open>2^-1070\<close> divided by 32 is \<open>-0\<close>, and a large
  double does not change when \<open>2 * Math.PI\<close> is taken from it. What is proved
  of finite numbers below is therefore stated for numbers within these bounds.
\<close>

datatype 'a jsnum = Fin 'a | NaN | Infinity | NegInfinity

fun js_neg :: "'a::uminus jsnum \<Rightarrow> 'a jsnum" where
  "js_neg (Fin a) = Fin (- a)"
| "js_neg NaN = NaN"
| "js_neg Infinity = NegInfinity"
| "js_neg NegInfinity = Infinity"

fun js_add :: "'a::plus jsnum \<Rightarrow> 'a jsnum \<Rightarrow> 'a jsnum" where
  "js_add (Fin a) (Fin b) = Fin (a + b)"
| "js_add NaN _ = NaN"
| "js_add _ NaN = NaN"
| "js_add Infinity NegInfinity = NaN"
| "js_add NegInfinity Infinity = NaN"
| "js_add Infinity _ = Infinity"
| "js_add _ Infinity = Infinity"
| "js_add NegInfinity _ = NegInfinity"
| "js_add _ NegInfinity = NegInfinity"

definition js_sub :: "'a::{plus,uminus} jsnum \<Rightarrow> 'a jsnum \<Rightarrow> 'a jsnum" where
  "js_sub a b = js_add a (js_neg b)"

text \<open>The increment \<open>x++\<close> of a loop counter.\<close>

definition js_inc :: "int jsnum \<Rightarrow> int jsnum" where
  "js_inc x = js_add x (Fin 1)"

fun js_le :: "'a::ord jsnum \<Rightarrow> 'a jsnum \<Rightarrow> bool" where
  "js_le (Fin a) (Fin b) = (a \<le> b)"
| "js_le NaN _ = False"
| "js_le _ NaN = False"
| "js_le NegInfinity _ = True"
| "js_le _ Infinity = True"
| "js_le Infinity _ = False"
| "js_le _ NegInfinity = False"


text \<open>Strict equality \<open>===\<close> on numbers: \<open>NaN\<close> differs from itself.\<close>

fun js_eq :: "'a jsnum \<Rightarrow> 'a jsnum \<Rightarrow> bool" where
  "js_eq NaN _ = False"
| "js_eq _ NaN = False"
| "js_eq a b = (a = b)"

text \<open>Division by a finite positive constant, and \<open>Math.floor\<close>.\<close>

fun js_div_pos :: "real jsnum \<Rightarrow> real \<Rightarrow> real jsnum" where
  "js_div_pos (Fin a) d = Fin (a / d)"
| "js_div_pos NaN d = NaN"
| "js_div_pos Infinity d = Infinity"
| "js_div_pos NegInfinity d = NegInfinity"

fun js_floor :: "real jsnum \<Rightarrow> int jsnum" where
  "js_floor (Fin a) = Fin \<lfloor>a\<rfloor>"
| "js_floor NaN = NaN"
| "js_floor Infinity = Infinity"
| "js_floor NegInfinity = NegInfinity"

subsection \<open>Number to string\<close>

definition digit_char :: "nat \<Rightarrow> char" where
  "digit_char d = ''0123456789'' ! d"

fun showNat :: "nat \<Rightarrow> string" where
  "showNat n = (if n < 10 then [digit_char n] else showNat (n div 10) @ [digit_char (n mod 10)])"

declare showNat.simps [simp del]

definition showInt :: "int \<Rightarrow> string" where
  "showInt i = (if i < 0 then CHR ''-'' # showNat (nat (- i)) else showNat (nat i))"

text \<open>The text a template literal inserts for an integral number.\<close>

fun js_toString :: "int jsnum \<Rightarrow> string" where
  "js_toString (Fin i) = showInt i"
| "js_toString NaN = ''NaN''"
| "js_toString Infinity = ''Infinity''"
| "js_toString NegInfinity = ''-Infinity''"

section \<open>City streaming\<close>

text \<open>
  \<open>main.js\<close> holds the program twice, an earlier copy followed by the
  current one; what follows is the second copy, with \<open>CHUNK_SIZE = 32\<close>,
  \<open>CHUNK_RADIUS = 1\<close>, \<open>skipNextMouseDelta\<close> and the smoothing that depends on
  the frame time.

  The streaming state of \<open>main.js\<close>: the map \<open>loadedChunks\<close> from the key
  \<open>`${x},${z}`\<close> to the chunk's group, in insertion order as a JavaScript \<open>Map\<close>
  keeps it; \<open>lastChunkX\<close> and \<open>lastChunkZ\<close>, \<open>null\<close> at first; the children of
  \<open>cityGroup\<close>. A chunk is an object: \<open>nextObject\<close> numbers the groups as
  \<open>buildCityChunk\<close> allocates them, so that two chunks are the same object exactly
  when their \<open>chunk_id\<close> agree, and \<open>disposed\<close> lists the groups whose resources
  were released. The meshes inside a group (ground, roads, four buildings of
  random size and colour) are not modelled.
\<close>

definition CHUNK_SIZE :: real where
  "CHUNK_SIZE = 32"

definition CHUNK_RADIUS :: int where
  "CHUNK_RADIUS = 1"

record 'a vec3 =
  vx :: 'a
  vy :: 'a
  vz :: 'a

record chunk =
  chunk_id :: nat
  chunk_cx :: "int jsnum"
  chunk_cz :: "int jsnum"

record stream_state =
  loadedChunks :: "(string \<times> chunk) list"
  lastChunkX :: "int jsnum option"
  lastChunkZ :: "int jsnum option"
  cityGroup :: "chunk list"
  nextObject :: nat
  disposed :: "nat list"

definition chunkKey :: "int jsnum \<Rightarrow> int jsnum \<Rightarrow> string" where
  "chunkKey x z = js_toString x @ '','' @ js_toString z"

text \<open>The operations of a \<open>Map\<close> and of a \<open>Set\<close> on insertion-ordered lists.\<close>

definition map_keys :: "('k \<times> 'v) list \<Rightarrow> 'k list" where
  "map_keys m = map fst m"

definition map_has :: "'k \<Rightarrow> ('k \<times> 'v) list \<Rightarrow> bool" where
  "map_has k m = (k \<in> set (map_keys m))"

fun map_set :: "'k \<Rightarrow> 'v \<Rightarrow> ('k \<times> 'v) list \<Rightarrow> ('k \<times> 'v) list" where
  "map_set k v [] = [(k, v)]"
| "map_set k v (p # ps) = (if fst p = k then (k, v) # ps else p # map_set k v ps)"

definition map_get :: "'k \<Rightarrow> ('k \<times> 'v) list \<Rightarrow> 'v option" where
  "map_get k m = map_of m k"

definition map_delete :: "'k \<Rightarrow> ('k \<times> 'v) list \<Rightarrow> ('k \<times> 'v) list" where
  "map_delete k m = filter (\<lambda>p. fst p \<noteq> k) m"

definition set_add :: "'k \<Rightarrow> 'k list \<Rightarrow> 'k list" where
  "set_add k s = (if k \<in> set s then s else s @ [k])"

definition set_has :: "'k \<Rightarrow> 'k list \<Rightarrow> bool" where
  "set_has k s = (k \<in> set s)"

text \<open>\<open>worldToChunk(x, z)\<close>\<close>

definition worldToChunk :: "real jsnum \<Rightarrow> real jsnum \<Rightarrow> int jsnum \<times> int jsnum" where
  "worldToChunk x z = (js_floor (js_div_pos x CHUNK_SIZE), js_floor (js_div_pos z CHUNK_SIZE))"

text \<open>\<open>buildCityChunk(cx, cz)\<close> returns a new group.\<close>

definition buildCityChunk :: "int jsnum \<Rightarrow> int jsnum \<Rightarrow> stream_state \<Rightarrow> chunk \<times> stream_state" where
  "buildCityChunk cx cz st =
     (\<lparr>chunk_id = nextObject st, chunk_cx = cx, chunk_cz = cz\<rparr>,
      st\<lparr>nextObject := Suc (nextObject st)\<rparr>)"

text \<open>
  The body of the two nested loops of \<open>updateCityStreaming\<close>: the key joins the
  set \<open>needed\<close>, and a chunk that is not loaded is built, stored and attached.
\<close>

definition loadStep :: "int jsnum \<Rightarrow> int jsnum \<Rightarrow> string list \<times> stream_state \<Rightarrow> string list \<times> stream_state" where
  "loadStep x z acc =
     (let needed = set_add (chunkKey x z) (fst acc); st = snd acc in
      if \<not> map_has (chunkKey x z) (loadedChunks st) then
        (let (chunk, st1) = buildCityChunk x z st in
         (needed, st1\<lparr>loadedChunks := map_set (chunkKey x z) chunk (loadedChunks st1),
                       cityGroup := cityGroup st1 @ [chunk]\<rparr>))
      else (needed, st))"

text \<open>
  \<open>for (let z = cz - CHUNK_RADIUS; z <= cz + CHUNK_RADIUS; z++)\<close> and the loop
  over \<open>x\<close> around it. A counter that is infinite never passes its bound, so the
  loops are partial: \<open>None\<close> stands for a call that does not return.
\<close>

partial_function (option) forZ ::
  "int jsnum \<Rightarrow> int jsnum \<Rightarrow> int jsnum \<Rightarrow> string list \<times> stream_state \<Rightarrow> (string list \<times> stream_state) option" where
  "forZ x z hi acc = (if js_le z hi then forZ x (js_inc z) hi (loadStep x z acc) else Some acc)"

partial_function (option) forX ::
  "int jsnum \<Rightarrow> int jsnum \<Rightarrow> int jsnum \<Rightarrow> string list \<times> stream_state \<Rightarrow> (string list \<times> stream_state) option" where
  "forX x hi cz acc =
     (if js_le x hi then
        Option.bind (forZ x (js_sub cz (Fin CHUNK_RADIUS)) (js_add cz (Fin CHUNK_RADIUS)) acc)
          (\<lambda>acc'. forX (js_inc x) hi cz acc')
      else Some acc)"

text \<open>The body of the unloading loop, run for each key of a snapshot of the map.\<close>

definition unloadStep :: "string list \<Rightarrow> stream_state \<Rightarrow> string \<Rightarrow> stream_state" where
  "unloadStep needed st key =
     (if \<not> set_has key needed then
        (let st1 = (case map_get key (loadedChunks st) of
                      Some grp \<Rightarrow> st\<lparr>disposed := disposed st @ [chunk_id grp],
                                       cityGroup := remove1 grp (cityGroup st)\<rparr>
                    | None \<Rightarrow> st)
         in st1\<lparr>loadedChunks := map_delete key (loadedChunks st1)\<rparr>)
      else st)"

text \<open>
  \<open>updateCityStreaming()\<close>. The argument is the global \<open>character\<close>, reduced to
  its position, or \<open>None\<close> when there is no character.
\<close>

definition sameChunk :: "int jsnum \<Rightarrow> int jsnum option \<Rightarrow> bool" where
  "sameChunk c l = (case l of None \<Rightarrow> False | Some v \<Rightarrow> js_eq c v)"

definition updateCityStreaming :: "real jsnum vec3 option \<Rightarrow> stream_state \<Rightarrow> stream_state option" where
  "updateCityStreaming character st =
     (let pos = (case character of Some p \<Rightarrow> p | None \<Rightarrow> \<lparr>vx = Fin 0, vy = Fin 0, vz = Fin 0\<rparr>);
          (cx, cz) = worldToChunk (vx pos) (vz pos) in
      if sameChunk cx (lastChunkX st) \<and> sameChunk cz (lastChunkZ st) \<and> length (loadedChunks st) > 0
      then Some st
      else
        (let st1 = st\<lparr>lastChunkX := Some cx, lastChunkZ := Some cz\<rparr> in
         Option.bind
           (forX (js_sub cx (Fin CHUNK_RADIUS)) (js_add cx (Fin CHUNK_RADIUS)) cz ([], st1))
           (\<lambda>(needed, st2). Some (foldl (unloadStep needed) st2 (map_keys (loadedChunks st2))))))"

text \<open>
  The chunk bookkeeping of \<open>createCity()\<close>: every child of \<open>cityGroup\<close> is popped
  and disposed, the map and the last chunk are reset, and the nine chunks around
  the origin are loaded.
\<close>

definition initStep :: "int \<Rightarrow> int \<Rightarrow> stream_state \<Rightarrow> stream_state" where
  "initStep x z st =
     (let key = chunkKey (Fin x) (Fin z) in
      if \<not> map_has key (loadedChunks st) then
        (let (chunk, st1) = buildCityChunk (Fin x) (Fin z) st in
         st1\<lparr>loadedChunks := map_set key chunk (loadedChunks st1),
              cityGroup := cityGroup st1 @ [chunk]\<rparr>)
      else st)"

definition createCity :: "stream_state \<Rightarrow> stream_state" where
  "createCity st =
     (let st1 = st\<lparr>disposed := disposed st @ map chunk_id (rev (cityGroup st)), cityGroup := []\<rparr>;
          st2 = st1\<lparr>loadedChunks := [], lastChunkX := None, lastChunkZ := None\<rparr>
      in foldl (\<lambda>s x. foldl (\<lambda>s z. initStep x z s) s [-1 .. 1]) st2 [-1 .. 1])"

text \<open>The state when the script is loaded.\<close>

definition initialStream :: stream_state where
  "initialStream = \<lparr>loadedChunks = [], lastChunkX = None, lastChunkZ = None,
                     cityGroup = [], nextObject = 0, disposed = []\<rparr>"

declare forZ.simps [code] forX.simps [code]

subsection \<open>Notions used in the proofs\<close>

text \<open>
  The states that the program can be in: the state at load time, and what
  \<open>createCity\<close> and any call of \<open>updateCityStreaming\<close> that returns make of a
  state that it can be in.
\<close>

inductive reachable :: "stream_state \<Rightarrow> bool" where
  initial: "reachable initialStream"
| city: "reachable st \<Longrightarrow> reachable (createCity st)"
| stream: "reachable st \<Longrightarrow> updateCityStreaming character st = Some st' \<Longrightarrow> reachable st'"

text \<open>
  The coordinates for which the chunk index and the loop counters around it
  are exact in doubles: the index \<open>floor(p / CHUNK_SIZE)\<close> has magnitude at most
  \<open>2^53 - 2\<close>, so that the counters, which run up to the index plus two, stay
  within \<open>2^53\<close>; and \<open>p\<close> is not a negative number of magnitude at most
  \<open>2^-1070\<close>, whose quotient by \<open>CHUNK_SIZE\<close> underflows to \<open>-0\<close>.
\<close>

definition indexInRange :: "real \<Rightarrow> bool" where
  "indexInRange p = (\<bar>\<lfloor>p / CHUNK_SIZE\<rfloor>\<bar> \<le> 2 ^ 53 - 2)"

definition noUnderflow :: "real \<Rightarrow> bool" where
  "noUnderflow p = (p < - (1 / 2 ^ 1070) \<or> 0 \<le> p)"

text \<open>The keys of the map, and the keys of the square around a chunk.\<close>

abbreviation keysOf :: "stream_state \<Rightarrow> string list" where
  "keysOf st \<equiv> map_keys (loadedChunks st)"

definition neededSet :: "int \<Rightarrow> int \<Rightarrow> string set" where
  "neededSet cx cz = {chunkKey (Fin x) (Fin z) | x z.
      \<bar>x - cx\<bar> \<le> CHUNK_RADIUS \<and> \<bar>z - cz\<bar> \<le> CHUNK_RADIUS}"

definition square :: "int \<Rightarrow> int \<Rightarrow> string set" where
  "square cx cz = (\<Union>x \<in> {cx - CHUNK_RADIUS .. cx + CHUNK_RADIUS}.
      (\<lambda>z. chunkKey (Fin x) (Fin z)) ` {cz - CHUNK_RADIUS .. cz + CHUNK_RADIUS})"

text \<open>
  What the reached states have in common: no key is stored twice; when the
  last chunk is a pair of integers and the map is not empty, the keys are those
  of the square around the last chunk; and a map that is not empty comes with
  a last chunk that is unset or a pair of integers.
\<close>

definition chunks_inv :: "stream_state \<Rightarrow> bool" where
  "chunks_inv st = (distinct (keysOf st) \<and>
     (\<forall>x z. lastChunkX st = Some (Fin x) \<and> lastChunkZ st = Some (Fin z) \<and> loadedChunks st \<noteq> []
        \<longrightarrow> set (keysOf st) = neededSet x z) \<and>
     (loadedChunks st \<noteq> [] \<longrightarrow>
        (lastChunkX st = None \<and> lastChunkZ st = None) \<or>
        (\<exists>x z. lastChunkX st = Some (Fin x) \<and> lastChunkZ st = Some (Fin z))))"

text \<open>
  The parts of \<open>updateCityStreaming\<close>: the chunk of the character, the test
  of the early return, the assignment of the last chunk, the two loops from
  their bounds, their value on integers, and the unloading loop.
\<close>

definition charChunk :: "real jsnum vec3 option \<Rightarrow> int jsnum \<times> int jsnum" where
  "charChunk character =
     (case character of Some p \<Rightarrow> worldToChunk (vx p) (vz p) | None \<Rightarrow> worldToChunk (Fin 0) (Fin 0))"

definition isSame :: "int jsnum \<Rightarrow> int jsnum \<Rightarrow> stream_state \<Rightarrow> bool" where
  "isSame cx cz st = (sameChunk cx (lastChunkX st) \<and> sameChunk cz (lastChunkZ st) \<and> length (loadedChunks st) > 0)"

definition setLast :: "int jsnum \<Rightarrow> int jsnum \<Rightarrow> stream_state \<Rightarrow> stream_state" where
  "setLast cx cz st = st\<lparr>lastChunkX := Some cx, lastChunkZ := Some cz\<rparr>"

definition loops :: "int jsnum \<Rightarrow> int jsnum \<Rightarrow> string list \<times> stream_state \<Rightarrow> (string list \<times> stream_state) option" where
  "loops cx cz acc = forX (js_sub cx (Fin CHUNK_RADIUS)) (js_add cx (Fin CHUNK_RADIUS)) cz acc"

definition loadRow :: "int \<Rightarrow> int \<Rightarrow> string list \<times> stream_state \<Rightarrow> string list \<times> stream_state" where
  "loadRow cz x acc = foldl (\<lambda>a z. loadStep (Fin x) (Fin z) a) acc [cz - CHUNK_RADIUS .. cz + CHUNK_RADIUS]"

definition loadAll :: "int \<Rightarrow> int \<Rightarrow> string list \<times> stream_state \<Rightarrow> string list \<times> stream_state" where
  "loadAll cx cz acc = foldl (\<lambda>a x. loadRow cz x a) acc [cx - CHUNK_RADIUS .. cx + CHUNK_RADIUS]"

definition fullUpdate :: "string list \<times> stream_state \<Rightarrow> stream_state" where
  "fullUpdate acc = foldl (unloadStep (fst acc)) (snd acc) (map_keys (loadedChunks (snd acc)))"

text \<open>A loop counter that is infinite and equal to its bound stays so for ever.\<close>

definition stuck :: "int jsnum \<Rightarrow> int jsnum \<Rightarrow> bool" where
  "stuck x hi = (x = hi \<and> (x = Infinity \<or> x = NegInfinity))"

subsection \<open>The states of the end-to-end scenario\<close>

definition mkChunk :: "nat \<Rightarrow> int \<Rightarrow> int \<Rightarrow> chunk" where
  "mkChunk i x z = \<lparr>chunk_id = i, chunk_cx = Fin x, chunk_cz = Fin z\<rparr>"

definition afterOrigin :: stream_state where
  "afterOrigin = \<lparr>loadedChunks =
     [(''-1,-1'', mkChunk 0 (-1) (-1)), (''-1,0'', mkChunk 1 (-1) 0), (''-1,1'', mkChunk 2 (-1) 1),
      (''0,-1'', mkChunk 3 0 (-1)), (''0,0'', mkChunk 4 0 0), (''0,1'', mkChunk 5 0 1),
      (''1,-1'', mkChunk 6 1 (-1)), (''1,0'', mkChunk 7 1 0), (''1,1'', mkChunk 8 1 1)],
     lastChunkX = Some (Fin 0), lastChunkZ = Some (Fin 0),
     cityGroup = [mkChunk 0 (-1) (-1), mkChunk 1 (-1) 0, mkChunk 2 (-1) 1,
                  mkChunk 3 0 (-1), mkChunk 4 0 0, mkChunk 5 0 1,
                  mkChunk 6 1 (-1), mkChunk 7 1 0, mkChunk 8 1 1],
     nextObject = 9, disposed = []\<rparr>"

definition afterMove :: stream_state where
  "afterMove = \<lparr>loadedChunks =
     [(''0,-1'', mkChunk 3 0 (-1)), (''0,0'', mkChunk 4 0 0), (''0,1'', mkChunk 5 0 1),
      (''1,-1'', mkChunk 6 1 (-1)), (''1,0'', mkChunk 7 1 0), (''1,1'', mkChunk 8 1 1),
      (''2,-1'', mkChunk 9 2 (-1)), (''2,0'', mkChunk 10 2 0), (''2,1'', mkChunk 11 2 1)],
     lastChunkX = Some (Fin 1), lastChunkZ = Some (Fin 0),
     cityGroup = [mkChunk 3 0 (-1), mkChunk 4 0 0, mkChunk 5 0 1,
                  mkChunk 6 1 (-1), mkChunk 7 1 0, mkChunk 8 1 1,
                  mkChunk 9 2 (-1), mkChunk 10 2 0, mkChunk 11 2 1],
     nextObject = 12, disposed = [0, 1, 2]\<rparr>"

section \<open>Mouse look and the follow camera\<close>

text \<open>
  The camera state of \<open>main.js\<close>: the orbit angles \<open>cameraYaw\<close> and
  \<open>cameraPitch\<close> in radians, the flags \<open>isPointerLocked\<close>,
  \<open>skipNextMouseDelta\<close> and \<open>isPaused\<close>, the follow height and distance, and
  the two vectors the smoothing writes, \<open>camera.position\<close> and
  \<open>controls.target\<close>. Angles, positions and the frame time are finite here
  and carried as reals.
\<close>

definition POINTER_SENSITIVITY :: real where
  "POINTER_SENSITIVITY = 18 / 10000"

definition CAMERA_PITCH_RANGE_DEG_min :: real where
  "CAMERA_PITCH_RANGE_DEG_min = - 30"

definition CAMERA_PITCH_RANGE_DEG_max :: real where
  "CAMERA_PITCH_RANGE_DEG_max = 60"

definition MIN_CAMERA_ABOVE_CHARACTER :: real where
  "MIN_CAMERA_ABOVE_CHARACTER = 6 / 10"

definition DEFAULT_CAMERA_PITCH_DEG :: real where
  "DEFAULT_CAMERA_PITCH_DEG = 23"

definition DEFAULT_CAMERA_FOLLOW_HEIGHT :: real where
  "DEFAULT_CAMERA_FOLLOW_HEIGHT = 425 / 100"

definition DEFAULT_CAMERA_FOLLOW_DISTANCE :: real where
  "DEFAULT_CAMERA_FOLLOW_DISTANCE = 814 / 100"

record camera_state =
  cameraYaw :: real
  cameraPitch :: real
  isPointerLocked :: bool
  skipNextMouseDelta :: bool
  isPaused :: bool
  cameraFollowHeight :: real
  cameraFollowDistance :: real
  camera_position :: "real vec3"
  controls_target :: "real vec3"

text \<open>
  A \<open>mousemove\<close> event carries \<open>movementX\<close> and \<open>movementY\<close>; \<open>None\<close> is a
  field the browser does not provide, which \<open>e.movementX || 0\<close> reads as zero.
\<close>

record mouse_event =
  movementX :: "real option"
  movementY :: "real option"

definition orZero :: "real option \<Rightarrow> real" where
  "orZero v = (case v of None \<Rightarrow> 0 | Some r \<Rightarrow> r)"

text \<open>
  \<open>onPointerLockChange()\<close>; the argument is the value of
  \<open>document.pointerLockElement === canvas\<close>.
\<close>

definition onPointerLockChange :: "bool \<Rightarrow> camera_state \<Rightarrow> camera_state" where
  "onPointerLockChange locked st =
     (let st1 = st\<lparr>isPointerLocked := locked\<rparr> in
      if isPointerLocked st1 then st1\<lparr>isPaused := False, skipNextMouseDelta := True\<rparr>
      else st1)"

text \<open>The \<open>mousemove\<close> listener of \<open>setupPointerLock\<close>.\<close>

definition onMouseMove :: "mouse_event \<Rightarrow> camera_state \<Rightarrow> camera_state" where
  "onMouseMove e st =
     (if \<not> isPointerLocked st then st
      else if skipNextMouseDelta st then st\<lparr>skipNextMouseDelta := False\<rparr>
      else
        (let maxDelta = 30;
             dx = max (- maxDelta) (min maxDelta (orZero (movementX e)));
             dy = max (- maxDelta) (min maxDelta (orZero (movementY e)));
             yaw = cameraYaw st - dx * POINTER_SENSITIVITY;
             pitch = cameraPitch st - dy * POINTER_SENSITIVITY;
             minPitch = CAMERA_PITCH_RANGE_DEG_min * pi / 180;
             maxPitch = CAMERA_PITCH_RANGE_DEG_max * pi / 180
         in st\<lparr>cameraYaw := yaw, cameraPitch := max minPitch (min maxPitch pitch)\<rparr>))"

text \<open>
  \<open>Vector3.lerp(v, alpha)\<close> of three.js, not part of the repository: each
  component moves by the fraction \<open>alpha\<close> of its distance to \<open>v\<close>.
\<close>

definition lerp :: "real vec3 \<Rightarrow> real vec3 \<Rightarrow> real \<Rightarrow> real vec3" where
  "lerp p v alpha = \<lparr>vx = vx p + (vx v - vx p) * alpha,
                     vy = vy p + (vy v - vy p) * alpha,
                     vz = vz p + (vz v - vz p) * alpha\<rparr>"

text \<open>
  The camera part of \<open>updateCharacterMovement(delta)\<close>, from
  \<open>const thirdPersonDistance\<close> to the two calls of \<open>lerp\<close>, given the position
  of the character: \<open>desiredCameraPos\<close>, the target the code builds in the
  second call, the factor \<open>alpha\<close>, and the two assignments. Moving the
  character and its animation, which come before, are not modelled.
\<close>

definition desiredCameraPos :: "real vec3 \<Rightarrow> camera_state \<Rightarrow> real vec3" where
  "desiredCameraPos position st =
     (let thirdPersonDistance = cameraFollowDistance st;
          thirdPersonHeight = cameraFollowHeight st;
          baseYaw = cameraYaw st;
          basePitch = cameraPitch st;
          cosPitch = cos basePitch;
          sinPitch = sin basePitch;
          offsetX = sin baseYaw * - thirdPersonDistance * cosPitch;
          offsetZ = cos baseYaw * - thirdPersonDistance * cosPitch;
          offsetY0 = thirdPersonHeight + (thirdPersonDistance * sinPitch);
          minY = MIN_CAMERA_ABOVE_CHARACTER;
          offsetY = (if offsetY0 < minY then minY else offsetY0)
      in \<lparr>vx = vx position + offsetX, vy = vy position + offsetY, vz = vz position + offsetZ\<rparr>)"

definition desiredTarget :: "real vec3 \<Rightarrow> camera_state \<Rightarrow> real vec3" where
  "desiredTarget position st =
     \<lparr>vx = vx position + 0,
      vy = vy position + max 1 (cameraFollowHeight st * (4 / 10)),
      vz = vz position + 0\<rparr>"

definition smoothingAlpha :: "real \<Rightarrow> camera_state \<Rightarrow> real" where
  "smoothingAlpha delta st =
     (let baseAlpha = (if isPointerLocked st then 22 / 100 else 16 / 100)
      in 1 - (1 - baseAlpha) powr (max (1 / 10000) delta * 60))"

definition cameraFollow :: "real vec3 \<Rightarrow> real \<Rightarrow> camera_state \<Rightarrow> camera_state" where
  "cameraFollow position delta st =
     (let alpha = smoothingAlpha delta st
      in st\<lparr>camera_position := lerp (camera_position st) (desiredCameraPos position st) alpha,
             controls_target := lerp (controls_target st) (desiredTarget position st) alpha\<rparr>)"

text \<open>
  The camera state when the script is loaded and \<open>init()\<close> has placed the
  camera at \<open>DEFAULT_CAMERA_POS\<close>, looking at \<open>(0, 1, 0)\<close>.
\<close>

definition initialCamera :: camera_state where
  "initialCamera = \<lparr>cameraYaw = 0, cameraPitch = DEFAULT_CAMERA_PITCH_DEG * pi / 180,
     isPointerLocked = False, skipNextMouseDelta = False, isPaused = False,
     cameraFollowHeight = DEFAULT_CAMERA_FOLLOW_HEIGHT,
     cameraFollowDistance = DEFAULT_CAMERA_FOLLOW_DISTANCE,
     camera_position = \<lparr>vx = 0, vy = 45 / 10, vz = 74 / 10\<rparr>,
     controls_target = \<lparr>vx = 0, vy = 1, vz = 0\<rparr>\<rparr>"

subsection \<open>Notions used in the proofs\<close>

text \<open>
  The pitch is inside the configured range; the base of the smoothing factor;
  \<open>n\<close> frames of the camera with the character standing still and the same
  frame time; an event of a mouse moved very far up.
\<close>

definition pitchInRange :: "camera_state \<Rightarrow> bool" where
  "pitchInRange st = (CAMERA_PITCH_RANGE_DEG_min * pi / 180 \<le> cameraPitch st
                      \<and> cameraPitch st \<le> CAMERA_PITCH_RANGE_DEG_max * pi / 180)"



definition mouseFarUp :: mouse_event where
  "mouseFarUp = \<lparr>movementX = Some 0, movementY = Some (- 100000)\<rparr>"

section \<open>Shortest angular difference\<close>




section \<open>Chunk keys are injective\<close>

lemma digit_char_inj: "a < 10 \<Longrightarrow> b < 10 \<Longrightarrow> digit_char a = digit_char b \<Longrightarrow> a = b"
  unfolding digit_char_def
  using nth_eq_iff_index_eq [of "''0123456789''" a b] by simp

lemma digit_char_digit: "d < 10 \<Longrightarrow> digit_char d \<in> set ''0123456789''"
  unfolding digit_char_def using nth_mem [of d "''0123456789''"] by simp

lemma showNat_digits: "c \<in> set (showNat n) \<Longrightarrow> c \<in> set ''0123456789''"
proof (induction n rule: showNat.induct)
  case (1 n)
  show ?case
  proof (cases "n < 10")
    case True
    with "1.prems" show ?thesis
      using digit_char_digit [of n] by (simp add: showNat.simps [of n])
  next
    case False
    have "n mod 10 < 10" by simp
    with False "1.prems" "1.IH" show ?thesis
      using digit_char_digit [of "n mod 10"] by (auto simp: showNat.simps [of n])
  qed
qed

lemma showNat_nonempty: "showNat n \<noteq> []"
  by (simp add: showNat.simps [of n])

lemma showNat_inj: "showNat a = showNat b \<Longrightarrow> a = b"
proof (induction a arbitrary: b rule: showNat.induct)
  case (1 a)
  show ?case
  proof (cases "a < 10")
    case a: True
    show ?thesis
    proof (cases "b < 10")
      case True
      with a "1.prems" show ?thesis
        by (simp add: showNat.simps [of a] showNat.simps [of b] digit_char_inj)
    next
      case False
      with a "1.prems" showNat_nonempty [of "b div 10"] show ?thesis
        by (simp add: showNat.simps [of a] showNat.simps [of b])
    qed
  next
    case a: False
    show ?thesis
    proof (cases "b < 10")
      case True
      with a "1.prems" showNat_nonempty [of "a div 10"] show ?thesis
        by (simp add: showNat.simps [of a] showNat.simps [of b])
    next
      case False
      with a "1.prems" have eq: "showNat (a div 10) = showNat (b div 10)"
        and d: "digit_char (a mod 10) = digit_char (b mod 10)"
        by (simp_all add: showNat.simps [of a] showNat.simps [of b])
      from "1.IH" [OF a eq] have "a div 10 = b div 10" .
      moreover from d have "a mod 10 = b mod 10"
        by (intro digit_char_inj) simp_all
      ultimately show ?thesis
        by (metis div_mult_mod_eq)
    qed
  qed
qed

lemma showInt_chars: "c \<in> set (showInt i) \<Longrightarrow> c \<in> set ''-0123456789''"
proof (cases "i < 0")
  case True
  assume "c \<in> set (showInt i)"
  with True have "c = CHR ''-'' \<or> c \<in> set (showNat (nat (- i)))" by (simp add: showInt_def)
  then show ?thesis using showNat_digits [of c "nat (- i)"] by fastforce
next
  case False
  assume "c \<in> set (showInt i)"
  with False have "c \<in> set (showNat (nat i))" by (simp add: showInt_def)
  then show ?thesis using showNat_digits [of c "nat i"] by fastforce
qed

lemma showInt_inj: "showInt i = showInt j \<Longrightarrow> i = j"
proof -
  assume eq: "showInt i = showInt j"
  have nominus: "\<And>n. hd (showNat n) \<noteq> CHR ''-''"
  proof -
    fix n
    have "hd (showNat n) \<in> set (showNat n)" using showNat_nonempty by simp
    then have "hd (showNat n) \<in> set ''0123456789''" by (rule showNat_digits)
    then show "hd (showNat n) \<noteq> CHR ''-''" by auto
  qed
  show "i = j"
  proof (cases "i < 0")
    case i: True
    show ?thesis
    proof (cases "j < 0")
      case True
      with i eq have "showNat (nat (- i)) = showNat (nat (- j))" by (simp add: showInt_def)
      then have "nat (- i) = nat (- j)" by (rule showNat_inj)
      with i True show ?thesis by simp
    next
      case False
      with i eq have "CHR ''-'' # showNat (nat (- i)) = showNat (nat j)" by (simp add: showInt_def)
      then have "hd (showNat (nat j)) = CHR ''-''" by (metis list.sel(1))
      with nominus show ?thesis by blast
    qed
  next
    case i: False
    show ?thesis
    proof (cases "j < 0")
      case True
      with i eq have "CHR ''-'' # showNat (nat (- j)) = showNat (nat i)" by (simp add: showInt_def)
      then have "hd (showNat (nat i)) = CHR ''-''" by (metis list.sel(1))
      with nominus show ?thesis by blast
    next
      case False
      with i eq have "showNat (nat i) = showNat (nat j)" by (simp add: showInt_def)
      then have "nat i = nat j" by (rule showNat_inj)
      with i False show ?thesis by simp
    qed
  qed
qed

lemma chunkKey_inj:
  "chunkKey (Fin a) (Fin b) = chunkKey (Fin c) (Fin d) \<Longrightarrow> a = c \<and> b = d"
proof -
  assume eq: "chunkKey (Fin a) (Fin b) = chunkKey (Fin c) (Fin d)"
  have na: "CHR '','' \<notin> set (showInt a)" using showInt_chars [of "CHR '',''" a] by auto
  have nb: "CHR '','' \<notin> set (showInt b)" using showInt_chars [of "CHR '',''" b] by auto
  from eq have "showInt a @ CHR '','' # showInt b = showInt c @ CHR '','' # showInt d"
    by (simp add: chunkKey_def)
  with na nb have "showInt a = showInt c \<and> showInt b = showInt d"
    using append_Cons_eq_iff [of "CHR '',''" "showInt a" "showInt b" "showInt c" "showInt d"] by blast
  then show ?thesis by (auto dest: showInt_inj)
qed

section \<open>The loading loops\<close>

lemma forZ_Fin:
  "forZ x (Fin z) (Fin hi) acc = Some (foldl (\<lambda>a z. loadStep x (Fin z) a) acc [z..hi])"
proof (induction "nat (hi + 1 - z)" arbitrary: z acc)
  case 0
  then have "\<not> z \<le> hi" by simp
  then show ?case by (subst forZ.simps) (simp add: upto.simps)
next
  case (Suc n)
  then have le: "z \<le> hi" and n: "n = nat (hi + 1 - (z + 1))" by simp_all
  from Suc.hyps(1) [OF n]
  have "forZ x (Fin (z + 1)) (Fin hi) (loadStep x (Fin z) acc)
        = Some (foldl (\<lambda>a z. loadStep x (Fin z) a) (loadStep x (Fin z) acc) [z + 1..hi])" .
  with le show ?case
    by (subst forZ.simps) (simp add: js_inc_def upto_rec1 [of z hi])
qed

lemma forZ_NaN_lo: "forZ x NaN hi acc = Some acc"
  by (subst forZ.simps) simp

lemma forZ_NaN_hi: "forZ x z NaN acc = Some acc"
  by (subst forZ.simps) (cases z; simp)

lemma stuck_step: "stuck x hi \<Longrightarrow> js_le x hi \<and> js_inc x = x"
  by (auto simp: stuck_def js_inc_def)

lemma forZ_Some_not_stuck:
  assumes "forZ x z hi acc = Some y"
  shows "\<not> stuck z hi"
proof (rule forZ.raw_induct [where P = "\<lambda>x z hi acc y. \<not> stuck z hi"
      and xa = "(((x, z), hi), acc)" and y = y, unfolded prod.case])
  fix f x z hi acc xa
  assume IH: "\<And>z hi acc b y. f z hi acc b = Some y \<Longrightarrow> \<not> stuck hi acc"
    and eq: "(if js_le z hi then f x (js_inc z) hi (loadStep x z acc) else Some acc) = Some xa"
  show "\<not> stuck z hi"
  proof
    assume s: "stuck z hi"
    with eq stuck_step [OF s] have "f x z hi (loadStep x z acc) = Some xa"
      by simp
    from IH [OF this] s show False by simp
  qed
next
  show "forZ x z hi acc = Some y" by (rule assms)
qed

lemma forZ_stuck: "stuck z hi \<Longrightarrow> forZ x z hi acc = None"
  using forZ_Some_not_stuck [of x z hi acc] by (cases "forZ x z hi acc") auto

lemma forX_Some_not_stuck:
  assumes "forX x hi cz acc = Some y"
  shows "\<not> stuck x hi"
proof (rule forX.raw_induct [where P = "\<lambda>x hi cz acc y. \<not> stuck x hi"
      and xa = "(((x, hi), cz), acc)" and y = y, unfolded prod.case])
  fix f x hi cz acc xa
  assume IH: "\<And>hi cz acc b y. f hi cz acc b = Some y \<Longrightarrow> \<not> stuck hi cz"
    and eq: "(if js_le x hi
              then forZ x (js_sub cz (Fin CHUNK_RADIUS)) (js_add cz (Fin CHUNK_RADIUS)) acc \<bind>
                   f (js_inc x) hi cz
              else Some acc) = Some xa"
  show "\<not> stuck x hi"
  proof
    assume s: "stuck x hi"
    with eq stuck_step [OF s] obtain acc' where "f x hi cz acc' = Some xa"
      by (auto simp: bind_eq_Some_conv)
    from IH [OF this] s show False by simp
  qed
next
  show "forX x hi cz acc = Some y" by (rule assms)
qed

lemma forX_stuck: "stuck x hi \<Longrightarrow> forX x hi cz acc = None"
  using forX_Some_not_stuck [of x hi cz acc] by (cases "forX x hi cz acc") auto

lemma forX_NaN: "forX NaN hi cz acc = Some acc"
  by (subst forX.simps) simp

lemma forX_Fin:
  "forX (Fin x) (Fin hi) (Fin cz) acc = Some (foldl (\<lambda>a x. loadRow cz x a) acc [x..hi])"
proof (induction "nat (hi + 1 - x)" arbitrary: x acc)
  case 0
  then have "\<not> x \<le> hi" by simp
  then show ?case by (subst forX.simps) (simp add: upto.simps)
next
  case (Suc n)
  then have le: "x \<le> hi" and n: "n = nat (hi + 1 - (x + 1))" by simp_all
  note IH = Suc.hyps(1) [OF n]
  from le show ?case
    by (subst forX.simps)
       (simp add: js_inc_def js_sub_def forZ_Fin IH upto_rec1 [of x hi] loadRow_def)
qed

lemma forX_Fin_NaN: "forX (Fin x) (Fin hi) NaN acc = Some acc"
proof (induction "nat (hi + 1 - x)" arbitrary: x)
  case 0
  then have "\<not> x \<le> hi" by simp
  then show ?case by (subst forX.simps) simp
next
  case (Suc n)
  then have le: "x \<le> hi" and n: "n = nat (hi + 1 - (x + 1))" by simp_all
  note IH = Suc.hyps(1) [OF n]
  from le show ?case
    by (subst forX.simps) (simp add: js_inc_def js_sub_def forZ_NaN_lo IH)
qed

lemma forX_Fin_stuck:
  assumes "x \<le> hi" and "cz = Infinity \<or> cz = NegInfinity"
  shows "forX (Fin x) (Fin hi) cz acc = None"
proof -
  from assms(2) have "stuck (js_sub cz (Fin CHUNK_RADIUS)) (js_add cz (Fin CHUNK_RADIUS))"
    by (auto simp: stuck_def js_sub_def)
  then have "forZ (Fin x) (js_sub cz (Fin CHUNK_RADIUS)) (js_add cz (Fin CHUNK_RADIUS)) acc = None"
    by (rule forZ_stuck)
  with assms(1) show ?thesis by (subst forX.simps) simp
qed

subsection \<open>Map operations\<close>

lemma map_keys_map_set_new:
  "k \<notin> set (map_keys m) \<Longrightarrow> map_keys (map_set k v m) = map_keys m @ [k]"
  by (induction m) (auto simp: map_keys_def)

lemma map_keys_map_delete: "map_keys (map_delete k m) = filter (\<lambda>x. x \<noteq> k) (map_keys m)"
  by (induction m) (auto simp: map_keys_def map_delete_def)

subsection \<open>Loading\<close>

lemma loadStep_needed: "set (fst (loadStep x z acc)) = insert (chunkKey x z) (set (fst acc))"
  by (auto simp: loadStep_def Let_def set_add_def buildCityChunk_def)

lemma loadStep_keys:
  "keysOf (snd (loadStep x z acc)) =
     (if chunkKey x z \<in> set (keysOf (snd acc)) then keysOf (snd acc)
      else keysOf (snd acc) @ [chunkKey x z])"
  by (simp add: loadStep_def Let_def map_has_def buildCityChunk_def map_keys_map_set_new)

lemma loadStep_last:
  "lastChunkX (snd (loadStep x z acc)) = lastChunkX (snd acc)"
  "lastChunkZ (snd (loadStep x z acc)) = lastChunkZ (snd acc)"
  by (simp_all add: loadStep_def Let_def buildCityChunk_def)

lemma loadStep_keys_set:
  "set (keysOf (snd (loadStep x z acc))) = insert (chunkKey x z) (set (keysOf (snd acc)))"
  by (auto simp: loadStep_keys)

lemma loadStep_distinct:
  "distinct (keysOf (snd acc)) \<Longrightarrow> distinct (keysOf (snd (loadStep x z acc)))"
  by (simp add: loadStep_keys)

lemma loadRow_needed:
  "set (fst (loadRow cz x acc)) =
     set (fst acc) \<union> (\<lambda>z. chunkKey (Fin x) (Fin z)) ` {cz - CHUNK_RADIUS .. cz + CHUNK_RADIUS}"
proof -
  have "set (fst (foldl (\<lambda>a z. loadStep (Fin x) (Fin z) a) acc zs)) =
          set (fst acc) \<union> (\<lambda>z. chunkKey (Fin x) (Fin z)) ` set zs" for zs
    by (induction zs arbitrary: acc) (auto simp: loadStep_needed)
  then show ?thesis by (simp add: loadRow_def)
qed

lemma loadRow_keys:
  "set (keysOf (snd (loadRow cz x acc))) =
     set (keysOf (snd acc)) \<union> (\<lambda>z. chunkKey (Fin x) (Fin z)) ` {cz - CHUNK_RADIUS .. cz + CHUNK_RADIUS}"
proof -
  have "set (keysOf (snd (foldl (\<lambda>a z. loadStep (Fin x) (Fin z) a) acc zs))) =
          set (keysOf (snd acc)) \<union> (\<lambda>z. chunkKey (Fin x) (Fin z)) ` set zs" for zs
    by (induction zs arbitrary: acc) (auto simp: loadStep_keys_set)
  then show ?thesis by (simp add: loadRow_def)
qed

lemma loadRow_distinct:
  "distinct (keysOf (snd acc)) \<Longrightarrow> distinct (keysOf (snd (loadRow cz x acc)))"
proof -
  have "distinct (keysOf (snd acc)) \<Longrightarrow>
        distinct (keysOf (snd (foldl (\<lambda>a z. loadStep (Fin x) (Fin z) a) acc zs)))" for zs
    by (induction zs arbitrary: acc) (auto simp: loadStep_distinct)
  then show "distinct (keysOf (snd acc)) \<Longrightarrow> distinct (keysOf (snd (loadRow cz x acc)))"
    by (simp add: loadRow_def)
qed

lemma loadRow_last:
  "lastChunkX (snd (loadRow cz x acc)) = lastChunkX (snd acc)"
  "lastChunkZ (snd (loadRow cz x acc)) = lastChunkZ (snd acc)"
proof -
  have "lastChunkX (snd (foldl (\<lambda>a z. loadStep (Fin x) (Fin z) a) acc zs)) = lastChunkX (snd acc)
      \<and> lastChunkZ (snd (foldl (\<lambda>a z. loadStep (Fin x) (Fin z) a) acc zs)) = lastChunkZ (snd acc)" for zs
    by (induction zs arbitrary: acc) (auto simp: loadStep_last)
  then show "lastChunkX (snd (loadRow cz x acc)) = lastChunkX (snd acc)"
    and "lastChunkZ (snd (loadRow cz x acc)) = lastChunkZ (snd acc)"
    by (simp_all add: loadRow_def)
qed

lemma square_neededSet: "square cx cz = neededSet cx cz"
proof -
  have iv: "\<bar>x - c\<bar> \<le> r \<longleftrightarrow> x \<in> {c - r .. c + r}" for x c r :: int by auto
  show ?thesis unfolding square_def neededSet_def iv by blast
qed

lemma loadAll_needed: "set (fst (loadAll cx cz acc)) = set (fst acc) \<union> neededSet cx cz"
proof -
  have "set (fst (foldl (\<lambda>a x. loadRow cz x a) acc xs)) =
        set (fst acc) \<union> (\<Union>x \<in> set xs. (\<lambda>z. chunkKey (Fin x) (Fin z)) ` {cz - CHUNK_RADIUS .. cz + CHUNK_RADIUS})" for xs
    by (induction xs arbitrary: acc) (auto simp: loadRow_needed)
  then show ?thesis by (simp add: loadAll_def square_neededSet [symmetric] square_def)
qed

lemma loadAll_keys:
  "set (keysOf (snd (loadAll cx cz acc))) = set (keysOf (snd acc)) \<union> neededSet cx cz"
proof -
  have "set (keysOf (snd (foldl (\<lambda>a x. loadRow cz x a) acc xs))) =
        set (keysOf (snd acc)) \<union> (\<Union>x \<in> set xs. (\<lambda>z. chunkKey (Fin x) (Fin z)) ` {cz - CHUNK_RADIUS .. cz + CHUNK_RADIUS})" for xs
    by (induction xs arbitrary: acc) (auto simp: loadRow_keys)
  then show ?thesis by (simp add: loadAll_def square_neededSet [symmetric] square_def)
qed

lemma loadAll_distinct:
  "distinct (keysOf (snd acc)) \<Longrightarrow> distinct (keysOf (snd (loadAll cx cz acc)))"
proof -
  have "distinct (keysOf (snd acc)) \<Longrightarrow>
        distinct (keysOf (snd (foldl (\<lambda>a x. loadRow cz x a) acc xs)))" for xs
    by (induction xs arbitrary: acc) (auto simp: loadRow_distinct)
  then show "distinct (keysOf (snd acc)) \<Longrightarrow> distinct (keysOf (snd (loadAll cx cz acc)))"
    by (simp add: loadAll_def)
qed

lemma loadAll_last:
  "lastChunkX (snd (loadAll cx cz acc)) = lastChunkX (snd acc)"
  "lastChunkZ (snd (loadAll cx cz acc)) = lastChunkZ (snd acc)"
proof -
  have "lastChunkX (snd (foldl (\<lambda>a x. loadRow cz x a) acc xs)) = lastChunkX (snd acc)
      \<and> lastChunkZ (snd (foldl (\<lambda>a x. loadRow cz x a) acc xs)) = lastChunkZ (snd acc)" for xs
    by (induction xs arbitrary: acc) (auto simp: loadRow_last)
  then show "lastChunkX (snd (loadAll cx cz acc)) = lastChunkX (snd acc)"
    and "lastChunkZ (snd (loadAll cx cz acc)) = lastChunkZ (snd acc)"
    by (simp_all add: loadAll_def)
qed

subsection \<open>Unloading\<close>

lemma unloadStep_keys:
  "keysOf (unloadStep needed st k) =
     (if k \<in> set needed then keysOf st else filter (\<lambda>x. x \<noteq> k) (keysOf st))"
  by (simp add: unloadStep_def set_has_def Let_def map_keys_map_delete split: option.splits)

lemma unloadStep_last:
  "lastChunkX (unloadStep needed st k) = lastChunkX st"
  "lastChunkZ (unloadStep needed st k) = lastChunkZ st"
  by (simp_all add: unloadStep_def Let_def split: option.splits)

lemma unload_all_keys:
  "keysOf (foldl (unloadStep needed) st ks) = filter (\<lambda>k. k \<in> set needed \<or> k \<notin> set ks) (keysOf st)"
proof (induction ks arbitrary: st)
  case Nil
  show ?case by simp
next
  case (Cons k ks)
  show ?case
    by (auto simp: Cons.IH unloadStep_keys intro: filter_cong)
qed

lemma unload_all_last:
  "lastChunkX (foldl (unloadStep needed) st ks) = lastChunkX st"
  "lastChunkZ (foldl (unloadStep needed) st ks) = lastChunkZ st"
  by (induction ks arbitrary: st) (simp_all add: unloadStep_last)

lemma fullUpdate_keys:
  "keysOf (fullUpdate acc) = filter (\<lambda>k. k \<in> set (fst acc)) (keysOf (snd acc))"
  "lastChunkX (fullUpdate acc) = lastChunkX (snd acc)"
  "lastChunkZ (fullUpdate acc) = lastChunkZ (snd acc)"
  by (auto simp: fullUpdate_def unload_all_keys unload_all_last intro: filter_cong)

lemma loops_eq:
  "loops cx cz acc =
     (case cx of
        Fin x \<Rightarrow> (case cz of Fin z \<Rightarrow> Some (loadAll x z acc) | NaN \<Rightarrow> Some acc | _ \<Rightarrow> None)
      | NaN \<Rightarrow> Some acc
      | _ \<Rightarrow> None)"
proof (cases cx)
  case (Fin x)
  have le: "x - CHUNK_RADIUS \<le> x + CHUNK_RADIUS" by (simp add: CHUNK_RADIUS_def)
  show ?thesis
  proof (cases cz)
    case (Fin z)
    with \<open>cx = Fin x\<close> show ?thesis by (simp add: loops_def js_sub_def forX_Fin loadAll_def)
  next
    case NaN
    with \<open>cx = Fin x\<close> show ?thesis by (simp add: loops_def js_sub_def forX_Fin_NaN)
  next
    case Infinity
    with \<open>cx = Fin x\<close> le show ?thesis by (simp add: loops_def js_sub_def forX_Fin_stuck)
  next
    case NegInfinity
    with \<open>cx = Fin x\<close> le show ?thesis by (simp add: loops_def js_sub_def forX_Fin_stuck)
  qed
next
  case NaN
  then show ?thesis by (simp add: loops_def js_sub_def forX_NaN)
next
  case Infinity
  then show ?thesis by (simp add: loops_def js_sub_def forX_stuck stuck_def)
next
  case NegInfinity
  then show ?thesis by (simp add: loops_def js_sub_def forX_stuck stuck_def)
qed

lemma updateCityStreaming_eq:
  "updateCityStreaming character st =
     (let (cx, cz) = charChunk character in
      if isSame cx cz st then Some st
      else map_option fullUpdate (loops cx cz ([], setLast cx cz st)))"
  by (cases character)
     (auto simp: updateCityStreaming_def charChunk_def isSame_def setLast_def fullUpdate_def Let_def loops_def
           split: prod.splits bind_splits)

lemma charChunk_Fin:
  "charChunk (Some \<lparr>vx = Fin px, vy = py, vz = Fin pz\<rparr>) = (Fin \<lfloor>px / CHUNK_SIZE\<rfloor>, Fin \<lfloor>pz / CHUNK_SIZE\<rfloor>)"
  by (simp add: charChunk_def worldToChunk_def)

lemma charChunk_None: "charChunk None = (Fin 0, Fin 0)"
  by (simp add: charChunk_def worldToChunk_def CHUNK_SIZE_def)

lemma keysOf_Nil: "keysOf st = [] \<longleftrightarrow> loadedChunks st = []"
  by (simp add: map_keys_def)

lemma setLast_fields:
  "loadedChunks (setLast cx cz st) = loadedChunks st"
  "lastChunkX (setLast cx cz st) = Some cx"
  "lastChunkZ (setLast cx cz st) = Some cz"
  by (simp_all add: setLast_def)

lemma centre_needed: "chunkKey (Fin cx) (Fin cz) \<in> neededSet cx cz"
  unfolding neededSet_def by (rule CollectI, rule exI [of _ cx], rule exI [of _ cz]) (simp add: CHUNK_RADIUS_def)

lemma full_keys:
  "set (keysOf (fullUpdate (loadAll cx cz ([], st)))) = neededSet cx cz"
  by (auto simp: fullUpdate_keys loadAll_needed loadAll_keys)

lemma full_distinct:
  "distinct (keysOf st) \<Longrightarrow> distinct (keysOf (fullUpdate (loadAll cx cz ([], st))))"
  by (simp add: fullUpdate_keys loadAll_distinct)

lemma full_nonempty: "loadedChunks (fullUpdate (loadAll cx cz ([], st))) \<noteq> []"
proof
  assume "loadedChunks (fullUpdate (loadAll cx cz ([], st))) = []"
  then have "set (keysOf (fullUpdate (loadAll cx cz ([], st)))) = {}"
    by (simp add: map_keys_def)
  with centre_needed [of cx cz] full_keys [of cx cz st] show False by simp
qed

lemma full_last:
  "lastChunkX (fullUpdate (loadAll cx cz ([], setLast a b st))) = Some a"
  "lastChunkZ (fullUpdate (loadAll cx cz ([], setLast a b st))) = Some b"
  by (simp_all add: fullUpdate_keys loadAll_last setLast_fields)

lemma empty_keys: "loadedChunks (fullUpdate ([], st)) = []"
  using fullUpdate_keys(1) [of "([], st)"] by (simp add: keysOf_Nil)

lemma empty_last:
  "lastChunkX (fullUpdate ([], setLast a b st)) = Some a"
  "lastChunkZ (fullUpdate ([], setLast a b st)) = Some b"
  by (simp_all add: fullUpdate_keys setLast_fields)

lemma update_Fin:
  "updateCityStreaming (Some \<lparr>vx = Fin px, vy = py, vz = Fin pz\<rparr>) st =
     Some (if isSame (Fin \<lfloor>px / CHUNK_SIZE\<rfloor>) (Fin \<lfloor>pz / CHUNK_SIZE\<rfloor>) st then st
           else fullUpdate (loadAll \<lfloor>px / CHUNK_SIZE\<rfloor> \<lfloor>pz / CHUNK_SIZE\<rfloor>
                  ([], setLast (Fin \<lfloor>px / CHUNK_SIZE\<rfloor>) (Fin \<lfloor>pz / CHUNK_SIZE\<rfloor>) st)))"
  by (simp add: updateCityStreaming_eq charChunk_Fin loops_eq)

lemma isSame_Fin:
  "isSame (Fin x) (Fin z) st \<longleftrightarrow>
     lastChunkX st = Some (Fin x) \<and> lastChunkZ st = Some (Fin z) \<and> loadedChunks st \<noteq> []"
proof -
  have "sameChunk (Fin a) l \<longleftrightarrow> l = Some (Fin a)" for a :: int and l
    by (cases l; simp add: sameChunk_def) (metis js_eq.simps jsnum.exhaust jsnum.distinct)
  then show ?thesis by (simp add: isSame_def)
qed

subsection \<open>Invariant\<close>

lemma inv_initial: "chunks_inv initialStream"
  by (simp add: chunks_inv_def initialStream_def map_keys_def)

lemma initStep_keys:
  "keysOf (initStep x z st) =
     (if chunkKey (Fin x) (Fin z) \<in> set (keysOf st) then keysOf st
      else keysOf st @ [chunkKey (Fin x) (Fin z)])"
  by (simp add: initStep_def Let_def map_has_def buildCityChunk_def map_keys_map_set_new)

lemma initStep_last:
  "lastChunkX (initStep x z st) = lastChunkX st"
  "lastChunkZ (initStep x z st) = lastChunkZ st"
  by (simp_all add: initStep_def Let_def buildCityChunk_def)

lemma initRow_inv:
  "distinct (keysOf st) \<Longrightarrow> distinct (keysOf (foldl (\<lambda>s z. initStep x z s) st zs))"
  "lastChunkX (foldl (\<lambda>s z. initStep x z s) st zs) = lastChunkX st"
  "lastChunkZ (foldl (\<lambda>s z. initStep x z s) st zs) = lastChunkZ st"
  by (induction zs arbitrary: st) (simp_all add: initStep_keys initStep_last)

lemma initAll_inv:
  "distinct (keysOf st) \<Longrightarrow>
     distinct (keysOf (foldl (\<lambda>s x. foldl (\<lambda>s z. initStep x z s) s zs) st xs))"
  "lastChunkX (foldl (\<lambda>s x. foldl (\<lambda>s z. initStep x z s) s zs) st xs) = lastChunkX st"
  "lastChunkZ (foldl (\<lambda>s x. foldl (\<lambda>s z. initStep x z s) s zs) st xs) = lastChunkZ st"
  by (induction xs arbitrary: st) (simp_all add: initRow_inv)

lemma inv_createCity: "chunks_inv (createCity st)"
proof -
  let ?st2 = "st\<lparr>disposed := disposed st @ map chunk_id (rev (cityGroup st)), cityGroup := [],
                 loadedChunks := [], lastChunkX := None, lastChunkZ := None\<rparr>"
  have eq: "createCity st = foldl (\<lambda>s x. foldl (\<lambda>s z. initStep x z s) s [-1 .. 1]) ?st2 [-1 .. 1]"
    by (simp add: createCity_def Let_def)
  have "distinct (keysOf ?st2)" by (simp add: map_keys_def)
  then have "distinct (keysOf (createCity st))" unfolding eq by (rule initAll_inv(1))
  moreover have "lastChunkX (createCity st) = None" unfolding eq by (simp add: initAll_inv(2))
  moreover have "lastChunkZ (createCity st) = None" unfolding eq by (simp add: initAll_inv(3))
  ultimately show ?thesis by (simp add: chunks_inv_def)
qed

lemma fullUpdate_empty_distinct: "distinct (keysOf (fullUpdate ([], st)))"
  by (simp add: fullUpdate_keys)

lemma inv_update:
  assumes inv: "chunks_inv st" and upd: "updateCityStreaming character st = Some st'"
  shows "chunks_inv st'"
proof -
  obtain cx cz where cc: "charChunk character = (cx, cz)" by (cases "charChunk character")
  show ?thesis
  proof (cases "isSame cx cz st")
    case True
    with upd cc inv show ?thesis by (simp add: updateCityStreaming_eq)
  next
    case False
    with upd cc have res: "map_option fullUpdate
        (loops cx cz ([], setLast cx cz st)) = Some st'"
      by (simp add: updateCityStreaming_eq)
    from inv have d: "distinct (keysOf (setLast cx cz st))"
      by (simp add: chunks_inv_def setLast_fields)
    from res show ?thesis
    proof (cases cx)
      case (Fin x)
      show ?thesis
      proof (cases cz)
        case z: (Fin z)
        with res Fin have st': "st' = fullUpdate (loadAll x z ([], setLast (Fin x) (Fin z) st))"
          by (simp add: loops_eq)
        show ?thesis
          unfolding chunks_inv_def st'
          using d Fin z by (simp add: full_keys full_distinct full_last)
      next
        case NaN
        with res Fin have st': "st' = fullUpdate ([], setLast (Fin x) NaN st)"
          by (simp add: loops_eq)
        show ?thesis
          unfolding chunks_inv_def st' by (simp add: empty_keys map_keys_def)
      next
        case Infinity
        with res Fin show ?thesis by (simp add: loops_eq)
      next
        case NegInfinity
        with res Fin show ?thesis by (simp add: loops_eq)
      qed
    next
      case NaN
      with res have st': "st' = fullUpdate ([], setLast NaN cz st)"
        by (simp add: loops_eq)
      show ?thesis
        unfolding chunks_inv_def st' by (simp add: empty_keys map_keys_def)
    next
      case Infinity
      with res show ?thesis by (simp add: loops_eq)
    next
      case NegInfinity
      with res show ?thesis by (simp add: loops_eq)
    qed
  qed
qed

lemma reachable_inv: "reachable st \<Longrightarrow> chunks_inv st"
  by (induction rule: reachable.induct) (auto intro: inv_initial inv_createCity inv_update)

lemma update_Fin_keys:
  assumes "chunks_inv st"
  shows "\<exists>st'. updateCityStreaming (Some \<lparr>vx = Fin px, vy = py, vz = Fin pz\<rparr>) st = Some st'
      \<and> set (keysOf st') = neededSet \<lfloor>px / CHUNK_SIZE\<rfloor> \<lfloor>pz / CHUNK_SIZE\<rfloor>
      \<and> distinct (keysOf st')"
proof (cases "isSame (Fin \<lfloor>px / CHUNK_SIZE\<rfloor>) (Fin \<lfloor>pz / CHUNK_SIZE\<rfloor>) st")
  case True
  with assms show ?thesis
    by (simp add: update_Fin) (simp add: isSame_Fin chunks_inv_def)
next
  case False
  with assms show ?thesis
    by (simp add: update_Fin full_keys full_distinct chunks_inv_def setLast_fields)
qed

lemma reconcile_twice_any:
  assumes upd: "updateCityStreaming character st = Some st1"
  shows "updateCityStreaming character st1 = Some st1"
proof -
  obtain cx cz where cc: "charChunk character = (cx, cz)" by (cases "charChunk character")
  have fix_empty: "updateCityStreaming character (fullUpdate ([], setLast cx cz st)) = Some (fullUpdate ([], setLast cx cz st))"
    if "loops cx cz = Some"
  proof -
    define s where "s = fullUpdate ([], setLast cx cz st)"
    have e: "loadedChunks s = []" unfolding s_def by (rule empty_keys)
    have "lastChunkX s = Some cx" "lastChunkZ s = Some cz"
      unfolding s_def by (rule empty_last)+
    then have "setLast cx cz s = s"
      by (cases s) (simp add: setLast_def)
    moreover have "fullUpdate ([], s) = s"
      by (simp add: fullUpdate_def e map_keys_def)
    ultimately have "updateCityStreaming character s = Some s"
      using cc e that by (simp add: updateCityStreaming_eq isSame_def)
    then show ?thesis unfolding s_def .
  qed
  show ?thesis
  proof (cases "isSame cx cz st")
    case True
    with upd cc show ?thesis by (simp add: updateCityStreaming_eq)
  next
    case False
    with upd cc have res: "map_option fullUpdate
        (loops cx cz ([], setLast cx cz st)) = Some st1"
      by (simp add: updateCityStreaming_eq)
    show ?thesis
    proof (cases cx)
      case (Fin x)
      show ?thesis
      proof (cases cz)
        case z: (Fin z)
        with res Fin have st1: "st1 = fullUpdate (loadAll x z ([], setLast (Fin x) (Fin z) st))"
          by (simp add: loops_eq)
        have "isSame (Fin x) (Fin z) st1"
          unfolding st1 by (simp add: isSame_Fin full_last full_nonempty)
        with cc Fin z show ?thesis by (simp add: updateCityStreaming_eq)
      next
        case NaN
        with res Fin have "st1 = fullUpdate ([], setLast cx cz st)" by (simp add: loops_eq)
        moreover have "loops cx cz = Some"
          using Fin NaN by (intro ext) (simp add: loops_eq)
        ultimately show ?thesis using fix_empty by simp
      next
        case Infinity
        with res Fin show ?thesis by (simp add: loops_eq)
      next
        case NegInfinity
        with res Fin show ?thesis by (simp add: loops_eq)
      qed
    next
      case NaN
      with res have "st1 = fullUpdate ([], setLast cx cz st)" by (simp add: loops_eq)
      moreover have "loops cx cz = Some"
        using NaN by (intro ext) (simp add: loops_eq)
      ultimately show ?thesis using fix_empty by simp
    next
      case Infinity
      with res show ?thesis by (simp add: loops_eq)
    next
      case NegInfinity
      with res show ?thesis by (simp add: loops_eq)
    qed
  qed
qed

subsection \<open>Positions that are not finite\<close>

lemma charChunk_Some:
  "charChunk (Some \<lparr>vx = px, vy = py, vz = pz\<rparr>) =
     (js_floor (js_div_pos px CHUNK_SIZE), js_floor (js_div_pos pz CHUNK_SIZE))"
  by (simp add: charChunk_def worldToChunk_def)

lemma sameChunk_NaN: "\<not> sameChunk NaN l"
  by (cases l) (simp_all add: sameChunk_def)

lemma sameChunk_infinite_Fin:
  "c = Infinity \<or> c = NegInfinity \<Longrightarrow> \<not> sameChunk c (Some (Fin x))"
  by (auto simp: sameChunk_def)

lemma sameChunk_None: "\<not> sameChunk c None"
  by (simp add: sameChunk_def)

lemma update_NaN:
  assumes "charChunk character = (cx, cz)"
    and "cx = NaN \<or> (\<exists>x. cx = Fin x) \<and> cz = NaN"
  shows "updateCityStreaming character st = Some (fullUpdate ([], setLast cx cz st))"
proof -
  from assms(2) have "\<not> isSame cx cz st"
    by (auto simp: isSame_def sameChunk_NaN)
  moreover from assms(2) have "loops cx cz ([], setLast cx cz st) = Some ([], setLast cx cz st)"
    by (auto simp: loops_eq)
  ultimately show ?thesis
    using assms(1) by (simp add: updateCityStreaming_eq)
qed

lemma update_infinite:
  assumes inv: "chunks_inv st" and cc: "charChunk character = (cx, cz)"
    and inf: "cx = Infinity \<or> cx = NegInfinity \<or>
              (\<exists>x. cx = Fin x) \<and> (cz = Infinity \<or> cz = NegInfinity)"
  shows "updateCityStreaming character st = None"
proof -
  have "\<not> isSame cx cz st"
  proof
    assume same: "isSame cx cz st"
    then have ne: "loadedChunks st \<noteq> []" by (auto simp: isSame_def)
    with inv consider "lastChunkX st = None"
      | x z where "lastChunkX st = Some (Fin x)" "lastChunkZ st = Some (Fin z)"
      by (auto simp: chunks_inv_def)
    then show False
    proof cases
      case 1
      with same show False by (simp add: isSame_def sameChunk_None)
    next
      case 2
      with same inf show False
        by (auto simp: isSame_def sameChunk_infinite_Fin)
    qed
  qed
  moreover from inf have "loops cx cz ([], setLast cx cz st) = None"
    by (auto simp: loops_eq)
  ultimately show ?thesis
    using cc by (simp add: updateCityStreaming_eq)
qed

lemma recover_after_empty:
  assumes "loadedChunks st = []"
  shows "\<exists>st'. updateCityStreaming (Some \<lparr>vx = Fin qx, vy = qy, vz = Fin qz\<rparr>) st = Some st'
      \<and> set (keysOf st') = neededSet \<lfloor>qx / CHUNK_SIZE\<rfloor> \<lfloor>qz / CHUNK_SIZE\<rfloor>"
  using assms by (simp add: update_Fin isSame_Fin full_keys)


section \<open>The scenario, evaluated\<close>

lemma origin_frame:
  "updateCityStreaming (Some \<lparr>vx = Fin 0, vy = Fin 0, vz = Fin 0\<rparr>) initialStream = Some afterOrigin"
  by code_simp

lemma move_frame:
  "updateCityStreaming (Some \<lparr>vx = Fin 40, vy = Fin 0, vz = Fin 0\<rparr>) afterOrigin = Some afterMove"
  by code_simp

lemma nan_frame:
  "updateCityStreaming (Some \<lparr>vx = NaN, vy = Fin 0, vz = Fin 0\<rparr>) afterOrigin =
     Some \<lparr>loadedChunks = [], lastChunkX = Some NaN, lastChunkZ = Some (Fin 0),
           cityGroup = [], nextObject = 9, disposed = [0, 1, 2, 3, 4, 5, 6, 7, 8]\<rparr>"
  by code_simp

section \<open>Mouse look and camera smoothing\<close>

lemma clamp_range: "lo \<le> hi \<Longrightarrow> lo \<le> max lo (min hi x) \<and> max lo (min hi x) \<le> hi"
  for lo hi x :: real
  by auto

lemma pitch_bounds: "CAMERA_PITCH_RANGE_DEG_min * pi / 180 \<le> CAMERA_PITCH_RANGE_DEG_max * pi / 180"
proof -
  have "- 30 * pi / 180 \<le> 60 * pi / 180" using pi_gt_zero by linarith
  then show ?thesis
    by (simp only: CAMERA_PITCH_RANGE_DEG_min_def CAMERA_PITCH_RANGE_DEG_max_def)
qed

lemma onMouseMove_applied:
  assumes "isPointerLocked st" and "\<not> skipNextMouseDelta st"
  shows "cameraYaw (onMouseMove e st) =
           cameraYaw st - max (- 30) (min 30 (orZero (movementX e))) * POINTER_SENSITIVITY"
    and "cameraPitch (onMouseMove e st) =
           max (CAMERA_PITCH_RANGE_DEG_min * pi / 180) (min (CAMERA_PITCH_RANGE_DEG_max * pi / 180)
             (cameraPitch st - max (- 30) (min 30 (orZero (movementY e))) * POINTER_SENSITIVITY))"
    and "pitchInRange (onMouseMove e st)"
proof -
  show "cameraYaw (onMouseMove e st) =
           cameraYaw st - max (- 30) (min 30 (orZero (movementX e))) * POINTER_SENSITIVITY"
    using assms by (simp add: onMouseMove_def Let_def)
  show p: "cameraPitch (onMouseMove e st) =
           max (CAMERA_PITCH_RANGE_DEG_min * pi / 180) (min (CAMERA_PITCH_RANGE_DEG_max * pi / 180)
             (cameraPitch st - max (- 30) (min 30 (orZero (movementY e))) * POINTER_SENSITIVITY))"
    using assms by (simp add: onMouseMove_def Let_def)
  show "pitchInRange (onMouseMove e st)"
    unfolding pitchInRange_def p by (rule clamp_range [OF pitch_bounds])
qed

lemma onMouseMove_ignored:
  assumes "\<not> isPointerLocked st \<or> skipNextMouseDelta st"
  shows "cameraYaw (onMouseMove e st) = cameraYaw st"
    and "cameraPitch (onMouseMove e st) = cameraPitch st"
  using assms by (auto simp: onMouseMove_def)

lemma onMouseMove_pitch: "pitchInRange st \<Longrightarrow> pitchInRange (onMouseMove e st)"
proof (cases "isPointerLocked st \<and> \<not> skipNextMouseDelta st")
  case True
  then show ?thesis by (simp add: onMouseMove_applied(3))
next
  case False
  assume "pitchInRange st"
  with False onMouseMove_ignored(2) [of st e] show ?thesis
    by (auto simp: pitchInRange_def)
qed

lemma pitch_seq: "pitchInRange st \<Longrightarrow> pitchInRange (foldl (\<lambda>s e. onMouseMove e s) st es)"
  by (induction es arbitrary: st) (simp_all add: onMouseMove_pitch)

lemma initial_pitch: "pitchInRange initialCamera"
proof -
  have "- 30 * pi / 180 \<le> 23 * pi / 180 \<and> 23 * pi / 180 \<le> 60 * pi / 180"
    using pi_gt_zero by linarith
  then show ?thesis
    by (simp only: pitchInRange_def initialCamera_def CAMERA_PITCH_RANGE_DEG_min_def
          CAMERA_PITCH_RANGE_DEG_max_def DEFAULT_CAMERA_PITCH_DEG_def camera_state.simps)
qed

lemma alpha_range: "0 < smoothingAlpha delta st \<and> smoothingAlpha delta st < 1"
proof -
  have "0 < b \<Longrightarrow> b < 1 \<Longrightarrow> 0 < e \<Longrightarrow> 0 < 1 - b powr e \<and> 1 - b powr e < 1" for b e :: real
    using powr_less_mono2_neg [of "- e" b 1] by (simp add: powr_minus field_simps)
  then show ?thesis by (simp add: smoothingAlpha_def Let_def)
qed

lemma desiredCameraPos_eq:
  "desiredCameraPos p st =
     \<lparr>vx = vx p + sin (cameraYaw st) * - cameraFollowDistance st * cos (cameraPitch st),
      vy = vy p + max MIN_CAMERA_ABOVE_CHARACTER
                    (cameraFollowHeight st + cameraFollowDistance st * sin (cameraPitch st)),
      vz = vz p + cos (cameraYaw st) * - cameraFollowDistance st * cos (cameraPitch st)\<rparr>"
  by (simp add: desiredCameraPos_def Let_def max_def)

lemma cameraFollow_fields:
  "cameraYaw (cameraFollow p delta st) = cameraYaw st"
  "cameraPitch (cameraFollow p delta st) = cameraPitch st"
  "cameraFollowHeight (cameraFollow p delta st) = cameraFollowHeight st"
  "cameraFollowDistance (cameraFollow p delta st) = cameraFollowDistance st"
  "isPointerLocked (cameraFollow p delta st) = isPointerLocked st"
  "skipNextMouseDelta (cameraFollow p delta st) = skipNextMouseDelta st"
  "camera_position (cameraFollow p delta st) =
     lerp (camera_position st) (desiredCameraPos p st) (smoothingAlpha delta st)"
  "controls_target (cameraFollow p delta st) =
     lerp (controls_target st) (desiredTarget p st) (smoothingAlpha delta st)"
  by (simp_all add: cameraFollow_def Let_def)








lemma clamp_step:
  fixes lo hi p d :: real
  assumes "lo \<le> p" and "p \<le> hi"
  shows "\<bar>max lo (min hi (p - d)) - p\<bar> \<le> \<bar>d\<bar>"
  using assms by (auto simp: max_def min_def abs_if)

lemma clampDelta_bound: "\<bar>max (- 30) (min 30 v)\<bar> \<le> (30::real)"
  by linarith

lemma onMouseMove_yaw_step:
  "\<bar>cameraYaw (onMouseMove e st) - cameraYaw st\<bar> \<le> 30 * POINTER_SENSITIVITY"
proof (cases "isPointerLocked st \<and> \<not> skipNextMouseDelta st")
  case True
  have "\<bar>max (- 30) (min 30 (orZero (movementX e))) * POINTER_SENSITIVITY\<bar> \<le> 30 * POINTER_SENSITIVITY"
    using clampDelta_bound [of "orZero (movementX e)"]
    by (simp add: abs_mult POINTER_SENSITIVITY_def)
  with True show ?thesis by (simp add: onMouseMove_applied(1))
next
  case False
  then show ?thesis
    using onMouseMove_ignored(1) [of st e] by (auto simp: POINTER_SENSITIVITY_def)
qed

lemma onMouseMove_pitch_step:
  assumes "pitchInRange st"
  shows "\<bar>cameraPitch (onMouseMove e st) - cameraPitch st\<bar> \<le> 30 * POINTER_SENSITIVITY"
proof (cases "isPointerLocked st \<and> \<not> skipNextMouseDelta st")
  case True
  then have l: "isPointerLocked st" and s: "\<not> skipNextMouseDelta st" by simp_all
  have d: "\<bar>max (- 30) (min 30 (orZero (movementY e))) * POINTER_SENSITIVITY\<bar> \<le> 30 * POINTER_SENSITIVITY"
    using clampDelta_bound [of "orZero (movementY e)"]
    by (simp add: abs_mult POINTER_SENSITIVITY_def)
  from assms have lo: "CAMERA_PITCH_RANGE_DEG_min * pi / 180 \<le> cameraPitch st"
    and hi: "cameraPitch st \<le> CAMERA_PITCH_RANGE_DEG_max * pi / 180"
    by (simp_all add: pitchInRange_def)
  have "\<bar>cameraPitch (onMouseMove e st) - cameraPitch st\<bar>
        \<le> \<bar>max (- 30) (min 30 (orZero (movementY e))) * POINTER_SENSITIVITY\<bar>"
    unfolding onMouseMove_applied(2) [OF l s] by (rule clamp_step [OF lo hi])
  then show ?thesis using d by (rule order_trans)
next
  case False
  then have "cameraPitch (onMouseMove e st) = cameraPitch st"
    by (intro onMouseMove_ignored(2)) blast
  then show ?thesis by (simp add: POINTER_SENSITIVITY_def)
qed


section \<open>Angle normalisation\<close>













section \<open>The claims about city streaming\<close>

text \<open>
  C1, amended. In every state the program can be in, and for every position
  of the character with finite coordinates \<open>px\<close> and \<open>pz\<close> whose chunk indices
  \<open>cx = floor(px / CHUNK_SIZE)\<close> and \<open>cz = floor(pz / CHUNK_SIZE)\<close> have
  magnitude at most \<open>2^53 - 2\<close> and neither of which is a negative number of
  magnitude at most \<open>2^-1070\<close>, \<open>updateCityStreaming\<close> returns, and the keys of
  \<open>loadedChunks\<close> are then exactly the keys of the chunks \<open>(x, z)\<close> with
  \<open>|x - cx| \<le> CHUNK_RADIUS\<close> and \<open>|z - cz| \<le> CHUNK_RADIUS\<close>: no key outside
  the square is left and none inside it is missing. No key is stored twice,
  and by \<open>chunkKey_inj\<close> two chunks have the same key only when they are the
  same chunk.
\<close>

theorem reconcile_keys_exact:
  assumes "reachable st"
    and "indexInRange px" and "indexInRange pz"
    and "noUnderflow px" and "noUnderflow pz"
  shows "\<exists>st'. updateCityStreaming (Some \<lparr>vx = Fin px, vy = py, vz = Fin pz\<rparr>) st = Some st'
      \<and> set (map_keys (loadedChunks st')) =
          {chunkKey (Fin x) (Fin z) | x z.
             \<bar>x - \<lfloor>px / CHUNK_SIZE\<rfloor>\<bar> \<le> CHUNK_RADIUS \<and> \<bar>z - \<lfloor>pz / CHUNK_SIZE\<rfloor>\<bar> \<le> CHUNK_RADIUS}
      \<and> distinct (map_keys (loadedChunks st'))"
  using update_Fin_keys [OF reachable_inv [OF assms(1)], of px py pz]
  by (simp add: neededSet_def)

theorem reconcile_keys_exact_witness:
  "reachable initialStream \<and> indexInRange 40 \<and> indexInRange 0 \<and> noUnderflow 40 \<and> noUnderflow 0 \<and>
   (\<exists>st'. updateCityStreaming (Some \<lparr>vx = Fin 40, vy = Fin 0, vz = Fin 0\<rparr>) initialStream = Some st'
      \<and> set (map_keys (loadedChunks st')) =
          {chunkKey (Fin x) (Fin z) | x z. \<bar>x - 1\<bar> \<le> 1 \<and> \<bar>z - 0\<bar> \<le> 1}
      \<and> distinct (map_keys (loadedChunks st')))"
proof -
  have r: "indexInRange 40" "indexInRange 0" "noUnderflow 40" "noUnderflow 0"
    by (simp_all add: indexInRange_def noUnderflow_def CHUNK_SIZE_def)
  from reconcile_keys_exact [OF reachable.initial r, of "Fin 0"] r
  show ?thesis
    by (simp add: CHUNK_SIZE_def CHUNK_RADIUS_def reachable.initial)
qed

text \<open>
  The claim as it is written speaks of every position. The function does not
  check the position: with \<open>x = Infinity\<close> the chunk index is \<open>Infinity\<close>, the
  loop counter starts at \<open>Infinity - 1 = Infinity\<close> and never passes its bound,
  and the call from the load state does not return.
\<close>

theorem reconcile_keys_exact_counterexample:
  "updateCityStreaming (Some \<lparr>vx = Infinity, vy = Fin 0, vz = Fin 0\<rparr>) initialStream = None"
  by (rule update_infinite [OF inv_initial, where cx = Infinity and cz = "Fin 0"])
     (simp_all add: charChunk_Some CHUNK_SIZE_def)

text \<open>
  C2. With \<open>CHUNK_SIZE = 32\<close> and \<open>CHUNK_RADIUS = 1\<close>, from the empty map and
  the character at the origin, \<open>updateCityStreaming\<close> loads the nine chunks
  \<open>(-1,-1)\<close> to \<open>(1,1)\<close>. With the character then at \<open>(40, 0)\<close> the chunk
  of the character is \<open>(1, 0)\<close> and the map holds the nine chunks \<open>(0,-1)\<close> to
  \<open>(2,1)\<close>: the three entries \<open>(-1,-1)\<close>, \<open>(-1,0)\<close>, \<open>(-1,1)\<close> are the ones
  disposed, the three entries \<open>(2,-1)\<close>, \<open>(2,0)\<close>, \<open>(2,1)\<close> are the only
  groups newly allocated, and the six other entries are the entries of the
  first map, the same objects included.
\<close>

theorem end_to_end_scenario:
  "\<exists>s1 s2.
     CHUNK_SIZE = 32 \<and> CHUNK_RADIUS = 1
   \<and> loadedChunks initialStream = []
   \<and> updateCityStreaming (Some \<lparr>vx = Fin 0, vy = Fin 0, vz = Fin 0\<rparr>) initialStream = Some s1
   \<and> map_keys (loadedChunks s1) =
        [''-1,-1'', ''-1,0'', ''-1,1'', ''0,-1'', ''0,0'', ''0,1'', ''1,-1'', ''1,0'', ''1,1'']
   \<and> worldToChunk (Fin 40) (Fin 0) = (Fin 1, Fin 0)
   \<and> updateCityStreaming (Some \<lparr>vx = Fin 40, vy = Fin 0, vz = Fin 0\<rparr>) s1 = Some s2
   \<and> map_keys (loadedChunks s2) =
        [''0,-1'', ''0,0'', ''0,1'', ''1,-1'', ''1,0'', ''1,1'', ''2,-1'', ''2,0'', ''2,1'']
   \<and> map_keys (take 3 (loadedChunks s1)) = [''-1,-1'', ''-1,0'', ''-1,1'']
   \<and> disposed s2 = map (chunk_id \<circ> snd) (take 3 (loadedChunks s1))
   \<and> map_keys (drop 6 (loadedChunks s2)) = [''2,-1'', ''2,0'', ''2,1'']
   \<and> map (chunk_id \<circ> snd) (drop 6 (loadedChunks s2)) =
        [nextObject s1, nextObject s1 + 1, nextObject s1 + 2]
   \<and> nextObject s2 = nextObject s1 + 3
   \<and> take 6 (loadedChunks s2) = drop 3 (loadedChunks s1)
   \<and> cityGroup s2 = map snd (loadedChunks s2)"
proof (rule exI [of _ afterOrigin], rule exI [of _ afterMove], intro conjI)
  show "updateCityStreaming (Some \<lparr>vx = Fin 0, vy = Fin 0, vz = Fin 0\<rparr>) initialStream = Some afterOrigin"
    by (rule origin_frame)
  show "updateCityStreaming (Some \<lparr>vx = Fin 40, vy = Fin 0, vz = Fin 0\<rparr>) afterOrigin = Some afterMove"
    by (rule move_frame)
  show "worldToChunk (Fin 40) (Fin 0) = (Fin 1, Fin 0)"
    by (simp add: worldToChunk_def CHUNK_SIZE_def)
qed (simp_all add: CHUNK_SIZE_def CHUNK_RADIUS_def initialStream_def afterOrigin_def afterMove_def
       map_keys_def mkChunk_def)

text \<open>
  C3. For every position of the character, and from any state: when a call
  of \<open>updateCityStreaming\<close> has returned, a second call at the same position
  returns the state it was given, so that no group is allocated
  (\<open>nextObject\<close>), none is disposed, and the map and the children of
  \<open>cityGroup\<close> are unchanged. The first call does return when the coordinates
  are finite and the chunk indices have magnitude at most \<open>2^53 - 2\<close>.
\<close>

theorem reconcile_idempotent:
  "(updateCityStreaming character st = Some st1 \<longrightarrow>
      (\<exists>st2. updateCityStreaming character st1 = Some st2
         \<and> st2 = st1
         \<and> nextObject st2 = nextObject st1 \<and> disposed st2 = disposed st1
         \<and> loadedChunks st2 = loadedChunks st1 \<and> cityGroup st2 = cityGroup st1))
   \<and> (indexInRange px \<and> indexInRange pz \<longrightarrow>
      (\<exists>st'. updateCityStreaming (Some \<lparr>vx = Fin px, vy = py, vz = Fin pz\<rparr>) st = Some st'))"
proof (intro conjI impI)
  assume "updateCityStreaming character st = Some st1"
  from reconcile_twice_any [OF this]
  show "\<exists>st2. updateCityStreaming character st1 = Some st2
         \<and> st2 = st1
         \<and> nextObject st2 = nextObject st1 \<and> disposed st2 = disposed st1
         \<and> loadedChunks st2 = loadedChunks st1 \<and> cityGroup st2 = cityGroup st1"
    by simp
next
  show "\<exists>st'. updateCityStreaming (Some \<lparr>vx = Fin px, vy = py, vz = Fin pz\<rparr>) st = Some st'"
    by (simp add: update_Fin)
qed

theorem reconcile_idempotent_witness:
  "updateCityStreaming (Some \<lparr>vx = Fin 40, vy = Fin 0, vz = Fin 0\<rparr>) afterOrigin = Some afterMove
   \<and> indexInRange 40 \<and> indexInRange 0
   \<and> updateCityStreaming (Some \<lparr>vx = Fin 40, vy = Fin 0, vz = Fin 0\<rparr>) afterMove = Some afterMove"
proof -
  have r: "indexInRange 40" "indexInRange 0"
    by (simp_all add: indexInRange_def CHUNK_SIZE_def)
  from reconcile_idempotent [of "Some \<lparr>vx = Fin 40, vy = Fin 0, vz = Fin 0\<rparr>" afterOrigin afterMove 40 0 "Fin 0"]
    move_frame r
  show ?thesis by simp
qed

text \<open>
  C10. When there is no character, \<open>updateCityStreaming\<close> returns, in every
  state the program can be in, what it returns for a character at the origin,
  and the keys of the map are then those of the square around chunk \<open>(0, 0)\<close>.
\<close>

theorem reconcile_without_character:
  assumes "reachable st"
  shows "\<exists>st'. updateCityStreaming None st = Some st'
      \<and> updateCityStreaming (Some \<lparr>vx = Fin 0, vy = Fin 0, vz = Fin 0\<rparr>) st = Some st'
      \<and> set (map_keys (loadedChunks st')) =
          {chunkKey (Fin x) (Fin z) | x z. \<bar>x\<bar> \<le> CHUNK_RADIUS \<and> \<bar>z\<bar> \<le> CHUNK_RADIUS}"
proof -
  have same: "updateCityStreaming None st = updateCityStreaming (Some \<lparr>vx = Fin 0, vy = Fin 0, vz = Fin 0\<rparr>) st"
    by (simp add: updateCityStreaming_def)
  from update_Fin_keys [OF reachable_inv [OF assms], of 0 "Fin 0" 0] same
  show ?thesis by (auto simp: neededSet_def)
qed

theorem reconcile_without_character_witness:
  "reachable initialStream \<and>
   (\<exists>st'. updateCityStreaming None initialStream = Some st'
      \<and> updateCityStreaming (Some \<lparr>vx = Fin 0, vy = Fin 0, vz = Fin 0\<rparr>) initialStream = Some st'
      \<and> set (map_keys (loadedChunks st')) =
          {chunkKey (Fin x) (Fin z) | x z. \<bar>x\<bar> \<le> 1 \<and> \<bar>z\<bar> \<le> 1})"
  using reconcile_without_character [OF reachable.initial]
  by (simp add: CHUNK_RADIUS_def reachable.initial)

section \<open>The claims about the camera\<close>

text \<open>
  C5. Every \<open>mousemove\<close> event moves the yaw and the pitch by at most the
  clamped movement of 30 pixels times \<open>POINTER_SENSITIVITY\<close>, and the pitch
  stays inside the range of \<open>CAMERA_PITCH_RANGE_DEG\<close>: from a pitch inside
  the range, no sequence of events, however many and however large, brings it
  below the minimum or above the maximum. The last conjunct spells the
  listener out: an event that is applied subtracts the clamped movements times
  the sensitivity and clamps the pitch.
\<close>

theorem pitch_stays_clamped:
  assumes "CAMERA_PITCH_RANGE_DEG_min * pi / 180 \<le> cameraPitch st"
    and "cameraPitch st \<le> CAMERA_PITCH_RANGE_DEG_max * pi / 180"
  shows "CAMERA_PITCH_RANGE_DEG_min * pi / 180 \<le> cameraPitch (foldl (\<lambda>s e. onMouseMove e s) st events)
       \<and> cameraPitch (foldl (\<lambda>s e. onMouseMove e s) st events) \<le> CAMERA_PITCH_RANGE_DEG_max * pi / 180
       \<and> \<bar>cameraYaw (onMouseMove e st) - cameraYaw st\<bar> \<le> 30 * POINTER_SENSITIVITY
       \<and> \<bar>cameraPitch (onMouseMove e st) - cameraPitch st\<bar> \<le> 30 * POINTER_SENSITIVITY
       \<and> onMouseMove e st =
           (if \<not> isPointerLocked st then st
            else if skipNextMouseDelta st then st\<lparr>skipNextMouseDelta := False\<rparr>
            else st\<lparr>cameraYaw := cameraYaw st - max (- 30) (min 30 (orZero (movementX e))) * POINTER_SENSITIVITY,
                    cameraPitch := max (CAMERA_PITCH_RANGE_DEG_min * pi / 180)
                      (min (CAMERA_PITCH_RANGE_DEG_max * pi / 180)
                        (cameraPitch st - max (- 30) (min 30 (orZero (movementY e))) * POINTER_SENSITIVITY))\<rparr>)"
proof -
  from assms have r: "pitchInRange st" by (simp add: pitchInRange_def)
  from pitch_seq [OF r, of events]
  have "CAMERA_PITCH_RANGE_DEG_min * pi / 180 \<le> cameraPitch (foldl (\<lambda>s e. onMouseMove e s) st events)"
    and "cameraPitch (foldl (\<lambda>s e. onMouseMove e s) st events) \<le> CAMERA_PITCH_RANGE_DEG_max * pi / 180"
    by (simp_all add: pitchInRange_def)
  moreover note onMouseMove_yaw_step [of e st] onMouseMove_pitch_step [OF r, of e]
  moreover have "onMouseMove e st =
           (if \<not> isPointerLocked st then st
            else if skipNextMouseDelta st then st\<lparr>skipNextMouseDelta := False\<rparr>
            else st\<lparr>cameraYaw := cameraYaw st - max (- 30) (min 30 (orZero (movementX e))) * POINTER_SENSITIVITY,
                    cameraPitch := max (CAMERA_PITCH_RANGE_DEG_min * pi / 180)
                      (min (CAMERA_PITCH_RANGE_DEG_max * pi / 180)
                        (cameraPitch st - max (- 30) (min 30 (orZero (movementY e))) * POINTER_SENSITIVITY))\<rparr>)"
    by (simp add: onMouseMove_def Let_def)
  ultimately show ?thesis by blast
qed

theorem pitch_stays_clamped_witness:
  "CAMERA_PITCH_RANGE_DEG_min * pi / 180 \<le> cameraPitch (initialCamera\<lparr>isPointerLocked := True\<rparr>)
   \<and> cameraPitch (initialCamera\<lparr>isPointerLocked := True\<rparr>) \<le> CAMERA_PITCH_RANGE_DEG_max * pi / 180
   \<and> cameraPitch (foldl (\<lambda>s e. onMouseMove e s) (initialCamera\<lparr>isPointerLocked := True\<rparr>)
        ([mouseFarUp, mouseFarUp, mouseFarUp])) \<le> CAMERA_PITCH_RANGE_DEG_max * pi / 180
   \<and> cameraPitch (onMouseMove mouseFarUp (initialCamera\<lparr>isPointerLocked := True\<rparr>)) =
        DEFAULT_CAMERA_PITCH_DEG * pi / 180 + 30 * POINTER_SENSITIVITY"
proof -
  have lo: "CAMERA_PITCH_RANGE_DEG_min * pi / 180 \<le> cameraPitch (initialCamera\<lparr>isPointerLocked := True\<rparr>)"
    and hi: "cameraPitch (initialCamera\<lparr>isPointerLocked := True\<rparr>) \<le> CAMERA_PITCH_RANGE_DEG_max * pi / 180"
    using initial_pitch by (simp_all add: pitchInRange_def)
  have "23 * pi / 180 + 30 * (18 / 10000) \<le> 60 * pi / 180" "- 30 * pi / 180 \<le> 23 * pi / 180 + 30 * (18 / 10000)"
    using pi_ge_two by linarith+
  then have "cameraPitch (onMouseMove mouseFarUp (initialCamera\<lparr>isPointerLocked := True\<rparr>)) =
        DEFAULT_CAMERA_PITCH_DEG * pi / 180 + 30 * POINTER_SENSITIVITY"
    by (simp add: onMouseMove_def Let_def mouseFarUp_def orZero_def initialCamera_def
          POINTER_SENSITIVITY_def DEFAULT_CAMERA_PITCH_DEG_def CAMERA_PITCH_RANGE_DEG_min_def
          CAMERA_PITCH_RANGE_DEG_max_def)
  with pitch_stays_clamped [OF lo hi, of "[mouseFarUp, mouseFarUp, mouseFarUp]" mouseFarUp] lo hi
  show ?thesis by blast
qed

text \<open>
  C6. When the pointer lock is acquired, \<open>onPointerLockChange\<close> sets
  \<open>skipNextMouseDelta\<close>. The next \<open>mousemove\<close> event, whatever its movement,
  leaves yaw and pitch as they were and clears the flag; the event after it is
  applied: the yaw loses the clamped \<open>movementX\<close> times the sensitivity, the
  pitch the clamped \<open>movementY\<close> times the sensitivity and is clamped to its
  range. A movement of 100 counts as 30.
\<close>

theorem skip_next_delta:
  "skipNextMouseDelta (onPointerLockChange True st)
   \<and> isPointerLocked (onPointerLockChange True st)
   \<and> cameraYaw (onMouseMove e1 (onPointerLockChange True st)) = cameraYaw st
   \<and> cameraPitch (onMouseMove e1 (onPointerLockChange True st)) = cameraPitch st
   \<and> \<not> skipNextMouseDelta (onMouseMove e1 (onPointerLockChange True st))
   \<and> cameraYaw (onMouseMove e2 (onMouseMove e1 (onPointerLockChange True st))) =
       cameraYaw st - max (- 30) (min 30 (orZero (movementX e2))) * POINTER_SENSITIVITY
   \<and> cameraPitch (onMouseMove e2 (onMouseMove e1 (onPointerLockChange True st))) =
       max (CAMERA_PITCH_RANGE_DEG_min * pi / 180)
         (min (CAMERA_PITCH_RANGE_DEG_max * pi / 180)
           (cameraPitch st - max (- 30) (min 30 (orZero (movementY e2))) * POINTER_SENSITIVITY))
   \<and> max (- 30) (min 30 (orZero (Some 100))) * POINTER_SENSITIVITY = 30 * POINTER_SENSITIVITY"
  by (simp add: onPointerLockChange_def onMouseMove_def Let_def orZero_def)

text \<open>
  C7. For every position of the character and every yaw and pitch, the
  position \<open>updateCharacterMovement\<close> steers the camera to is the position of
  the character plus \<open>(sin(yaw) * -distance * cos(pitch),
  max(MIN_CAMERA_ABOVE_CHARACTER, height + distance * sin(pitch)),
  cos(yaw) * -distance * cos(pitch))\<close>, and the target it steers
  \<open>controls.target\<close> to is the position of the character plus
  \<open>(0, max(1.0, height * 0.4), 0)\<close>; the camera and the target move towards
  them by \<open>lerp\<close>.
\<close>

theorem desired_camera_pose:
  "desiredCameraPos p st =
     \<lparr>vx = vx p + sin (cameraYaw st) * - cameraFollowDistance st * cos (cameraPitch st),
      vy = vy p + max MIN_CAMERA_ABOVE_CHARACTER
                    (cameraFollowHeight st + cameraFollowDistance st * sin (cameraPitch st)),
      vz = vz p + cos (cameraYaw st) * - cameraFollowDistance st * cos (cameraPitch st)\<rparr>
   \<and> desiredTarget p st = \<lparr>vx = vx p, vy = vy p + max 1 (cameraFollowHeight st * (4 / 10)), vz = vz p\<rparr>
   \<and> camera_position (cameraFollow p delta st) =
       lerp (camera_position st) (desiredCameraPos p st) (smoothingAlpha delta st)
   \<and> controls_target (cameraFollow p delta st) =
       lerp (controls_target st) (desiredTarget p st) (smoothingAlpha delta st)"
  by (simp add: desiredCameraPos_eq desiredTarget_def cameraFollow_fields)




section \<open>The claim about angles\<close>




section \<open>The claim about degenerate input\<close>

text \<open>
  C4, amended. A frame time that is zero or negative is replaced by \<open>0.0001\<close>
  in the exponent of the smoothing factor, which is then the factor of the
  frame time \<open>0.0001\<close> and lies strictly between 0 and 1, and the camera step
  does not touch the orbit angles. A position of the character that is not
  finite is neither clamped nor rejected by \<open>updateCityStreaming\<close>. When its
  \<open>x\<close> is \<open>NaN\<close>, or its \<open>z\<close> is \<open>NaN\<close> and its \<open>x\<close> is finite with a chunk index
  of magnitude at most \<open>2^53 - 2\<close>, the \<open>NaN\<close> is stored as the last chunk and
  every chunk is unloaded; the next call with a finite position whose chunk
  indices have magnitude at most \<open>2^53 - 2\<close>, and neither coordinate of which
  is a negative number of magnitude at most \<open>2^-1070\<close>, loads the chunks of its
  square again. When its \<open>x\<close> is infinite, or its \<open>x\<close> is finite and its \<open>z\<close> is
  infinite, the call does not return.
\<close>

theorem degenerate_input:
  assumes "reachable st"
    and "indexInRange qx" and "indexInRange qz"
    and "noUnderflow qx" and "noUnderflow qz"
    and "indexInRange px"
  shows "(delta \<le> 0 \<longrightarrow>
            smoothingAlpha delta cam = smoothingAlpha (1 / 10000) cam
          \<and> 0 < smoothingAlpha delta cam \<and> smoothingAlpha delta cam < 1)
     \<and> cameraYaw (cameraFollow p delta cam) = cameraYaw cam
     \<and> cameraPitch (cameraFollow p delta cam) = cameraPitch cam
     \<and> (\<exists>st1 st2.
           updateCityStreaming (Some \<lparr>vx = NaN, vy = py, vz = pz\<rparr>) st = Some st1
         \<and> lastChunkX st1 = Some NaN \<and> loadedChunks st1 = []
         \<and> updateCityStreaming (Some \<lparr>vx = Fin qx, vy = qy, vz = Fin qz\<rparr>) st1 = Some st2
         \<and> set (map_keys (loadedChunks st2)) =
              {chunkKey (Fin x) (Fin z) | x z.
                 \<bar>x - \<lfloor>qx / CHUNK_SIZE\<rfloor>\<bar> \<le> CHUNK_RADIUS \<and> \<bar>z - \<lfloor>qz / CHUNK_SIZE\<rfloor>\<bar> \<le> CHUNK_RADIUS})
     \<and> (\<exists>st1 st2.
           updateCityStreaming (Some \<lparr>vx = Fin px, vy = py, vz = NaN\<rparr>) st = Some st1
         \<and> lastChunkZ st1 = Some NaN \<and> loadedChunks st1 = []
         \<and> updateCityStreaming (Some \<lparr>vx = Fin qx, vy = qy, vz = Fin qz\<rparr>) st1 = Some st2
         \<and> set (map_keys (loadedChunks st2)) =
              {chunkKey (Fin x) (Fin z) | x z.
                 \<bar>x - \<lfloor>qx / CHUNK_SIZE\<rfloor>\<bar> \<le> CHUNK_RADIUS \<and> \<bar>z - \<lfloor>qz / CHUNK_SIZE\<rfloor>\<bar> \<le> CHUNK_RADIUS})
     \<and> updateCityStreaming (Some \<lparr>vx = Infinity, vy = py, vz = pz\<rparr>) st = None
     \<and> updateCityStreaming (Some \<lparr>vx = NegInfinity, vy = py, vz = pz\<rparr>) st = None
     \<and> updateCityStreaming (Some \<lparr>vx = Fin px', vy = py, vz = Infinity\<rparr>) st = None
     \<and> updateCityStreaming (Some \<lparr>vx = Fin px', vy = py, vz = NegInfinity\<rparr>) st = None"
proof -
  note inv = reachable_inv [OF assms(1)]
  have clamp: "delta \<le> 0 \<longrightarrow>
            smoothingAlpha delta cam = smoothingAlpha (1 / 10000) cam
          \<and> 0 < smoothingAlpha delta cam \<and> smoothingAlpha delta cam < 1"
  proof
    assume "delta \<le> 0"
    then have "smoothingAlpha delta cam = smoothingAlpha (1 / 10000) cam"
      by (simp add: smoothingAlpha_def max_def)
    with alpha_range [of delta cam]
    show "smoothingAlpha delta cam = smoothingAlpha (1 / 10000) cam
          \<and> 0 < smoothingAlpha delta cam \<and> smoothingAlpha delta cam < 1"
      by simp
  qed
  have nanx: "\<exists>st1 st2.
           updateCityStreaming (Some \<lparr>vx = NaN, vy = py, vz = pz\<rparr>) st = Some st1
         \<and> lastChunkX st1 = Some NaN \<and> loadedChunks st1 = []
         \<and> updateCityStreaming (Some \<lparr>vx = Fin qx, vy = qy, vz = Fin qz\<rparr>) st1 = Some st2
         \<and> set (map_keys (loadedChunks st2)) =
              {chunkKey (Fin x) (Fin z) | x z.
                 \<bar>x - \<lfloor>qx / CHUNK_SIZE\<rfloor>\<bar> \<le> CHUNK_RADIUS \<and> \<bar>z - \<lfloor>qz / CHUNK_SIZE\<rfloor>\<bar> \<le> CHUNK_RADIUS}"
  proof -
    define cz where "cz = js_floor (js_div_pos pz CHUNK_SIZE)"
    define st1 where "st1 = fullUpdate ([], setLast NaN cz st)"
    have 1: "updateCityStreaming (Some \<lparr>vx = NaN, vy = py, vz = pz\<rparr>) st = Some st1"
      unfolding st1_def by (rule update_NaN [where cx = NaN and cz = cz]) (simp_all add: charChunk_Some cz_def)
    have 2: "lastChunkX st1 = Some NaN" and 3: "loadedChunks st1 = []"
      unfolding st1_def by (simp_all add: empty_last empty_keys)
    from recover_after_empty [OF 3, of qx qy qz] 1 2 3 show ?thesis
      unfolding neededSet_def by blast
  qed
  have nanz: "\<exists>st1 st2.
           updateCityStreaming (Some \<lparr>vx = Fin px, vy = py, vz = NaN\<rparr>) st = Some st1
         \<and> lastChunkZ st1 = Some NaN \<and> loadedChunks st1 = []
         \<and> updateCityStreaming (Some \<lparr>vx = Fin qx, vy = qy, vz = Fin qz\<rparr>) st1 = Some st2
         \<and> set (map_keys (loadedChunks st2)) =
              {chunkKey (Fin x) (Fin z) | x z.
                 \<bar>x - \<lfloor>qx / CHUNK_SIZE\<rfloor>\<bar> \<le> CHUNK_RADIUS \<and> \<bar>z - \<lfloor>qz / CHUNK_SIZE\<rfloor>\<bar> \<le> CHUNK_RADIUS}"
  proof -
    define st1 where "st1 = fullUpdate ([], setLast (Fin \<lfloor>px / CHUNK_SIZE\<rfloor>) NaN st)"
    have 1: "updateCityStreaming (Some \<lparr>vx = Fin px, vy = py, vz = NaN\<rparr>) st = Some st1"
      unfolding st1_def
      by (rule update_NaN [where cx = "Fin \<lfloor>px / CHUNK_SIZE\<rfloor>" and cz = NaN]) (simp_all add: charChunk_Some)
    have 2: "lastChunkZ st1 = Some NaN" and 3: "loadedChunks st1 = []"
      unfolding st1_def by (simp_all add: empty_last empty_keys)
    from recover_after_empty [OF 3, of qx qy qz] 1 2 3 show ?thesis
      unfolding neededSet_def by blast
  qed
  have inf1: "updateCityStreaming (Some \<lparr>vx = Infinity, vy = py, vz = pz\<rparr>) st = None"
    by (rule update_infinite [OF inv, where cx = Infinity and cz = "js_floor (js_div_pos pz CHUNK_SIZE)"])
       (simp_all add: charChunk_Some)
  have inf2: "updateCityStreaming (Some \<lparr>vx = NegInfinity, vy = py, vz = pz\<rparr>) st = None"
    by (rule update_infinite [OF inv, where cx = NegInfinity and cz = "js_floor (js_div_pos pz CHUNK_SIZE)"])
       (simp_all add: charChunk_Some)
  have inf3: "updateCityStreaming (Some \<lparr>vx = Fin px', vy = py, vz = Infinity\<rparr>) st = None"
    by (rule update_infinite [OF inv, where cx = "Fin \<lfloor>px' / CHUNK_SIZE\<rfloor>" and cz = Infinity])
       (simp_all add: charChunk_Some)
  have inf4: "updateCityStreaming (Some \<lparr>vx = Fin px', vy = py, vz = NegInfinity\<rparr>) st = None"
    by (rule update_infinite [OF inv, where cx = "Fin \<lfloor>px' / CHUNK_SIZE\<rfloor>" and cz = NegInfinity])
       (simp_all add: charChunk_Some)
  from clamp cameraFollow_fields(1,2) [of p delta cam]
    nanx nanz inf1 inf2 inf3 inf4
  show ?thesis by blast
qed

theorem degenerate_input_witness:
  "reachable initialStream \<and> indexInRange 40 \<and> indexInRange 0 \<and> noUnderflow 40 \<and> noUnderflow 0
   \<and> (- 1 :: real) \<le> 0
   \<and> smoothingAlpha (- 1) initialCamera = smoothingAlpha (1 / 10000) initialCamera
   \<and> updateCityStreaming (Some \<lparr>vx = Infinity, vy = Fin 0, vz = Fin 0\<rparr>) initialStream = None"
proof -
  have le: "(- 1 :: real) \<le> 0" by simp
  have r: "indexInRange 40" "indexInRange 0" "noUnderflow 40" "noUnderflow 0"
    by (simp_all add: indexInRange_def noUnderflow_def CHUNK_SIZE_def)
  from degenerate_input [OF reachable.initial r r(1), of "- 1" initialCamera] le r
  show ?thesis by (simp add: reachable.initial)
qed

text \<open>
  The claim as it is written fails on the state after the first frame at the
  origin. A position whose \<open>x\<close> is \<open>NaN\<close> is used: it becomes the last chunk, and
  the nine chunks are disposed and the map is left empty. A position whose
  \<open>x\<close> is infinite is used as well: the call does not return.
\<close>

theorem degenerate_input_counterexample:
  "updateCityStreaming (Some \<lparr>vx = Fin 0, vy = Fin 0, vz = Fin 0\<rparr>) initialStream = Some afterOrigin
   \<and> map_keys (loadedChunks afterOrigin) =
        [''-1,-1'', ''-1,0'', ''-1,1'', ''0,-1'', ''0,0'', ''0,1'', ''1,-1'', ''1,0'', ''1,1'']
   \<and> lastChunkX afterOrigin = Some (Fin 0)
   \<and> updateCityStreaming (Some \<lparr>vx = NaN, vy = Fin 0, vz = Fin 0\<rparr>) afterOrigin =
        Some \<lparr>loadedChunks = [], lastChunkX = Some NaN, lastChunkZ = Some (Fin 0),
              cityGroup = [], nextObject = 9, disposed = [0, 1, 2, 3, 4, 5, 6, 7, 8]\<rparr>
   \<and> updateCityStreaming (Some \<lparr>vx = Infinity, vy = Fin 0, vz = Fin 0\<rparr>) afterOrigin = None"
proof (intro conjI)
  show "updateCityStreaming (Some \<lparr>vx = Fin 0, vy = Fin 0, vz = Fin 0\<rparr>) initialStream = Some afterOrigin"
    by (rule origin_frame)
  show "updateCityStreaming (Some \<lparr>vx = NaN, vy = Fin 0, vz = Fin 0\<rparr>) afterOrigin =
        Some \<lparr>loadedChunks = [], lastChunkX = Some NaN, lastChunkZ = Some (Fin 0),
              cityGroup = [], nextObject = 9, disposed = [0, 1, 2, 3, 4, 5, 6, 7, 8]\<rparr>"
    by (rule nan_frame)
  have "reachable afterOrigin"
    using reachable.stream [OF reachable.initial origin_frame] .
  then have "chunks_inv afterOrigin" by (rule reachable_inv)
  then show "updateCityStreaming (Some \<lparr>vx = Infinity, vy = Fin 0, vz = Fin 0\<rparr>) afterOrigin = None"
    by (rule update_infinite [where cx = Infinity and cz = "Fin 0"])
       (simp_all add: charChunk_Some CHUNK_SIZE_def)
qed (simp_all add: afterOrigin_def map_keys_def)

end
